theory Spec2Isabelle
  imports Main "HOL-Library.Word" "HOL-Library.Multiset"
begin

section \<open>Go library functions used by the services\<close>

text \<open>
  A Go \<open>string\<close> is a sequence of bytes; it is modelled as \<open>string\<close> (a list of
  8-bit \<open>char\<close>s). A \<open>rune\<close> is a code point, modelled as \<open>nat\<close>.
\<close>

type_synonym rune = nat

definition RuneError :: rune where
  "RuneError = 0xFFFD"

text \<open>
  \<open>unicode/utf8\<close>: the table \<open>first\<close> together with \<open>acceptRanges\<close>, giving for a
  leading byte the length of the sequence and the range accepted for the second byte;
  \<open>None\<close> for the bytes marked invalid (\<open>0x80..0xC1\<close>, \<open>0xF5..0xFF\<close>).
\<close>

definition first :: "nat \<Rightarrow> (nat \<times> nat \<times> nat) option" where
  "first p0 =
     (if 0xC2 \<le> p0 \<and> p0 \<le> 0xDF then Some (2, 0x80, 0xBF)
      else if p0 = 0xE0 then Some (3, 0xA0, 0xBF)
      else if 0xE1 \<le> p0 \<and> p0 \<le> 0xEC then Some (3, 0x80, 0xBF)
      else if p0 = 0xED then Some (3, 0x80, 0x9F)
      else if 0xEE \<le> p0 \<and> p0 \<le> 0xEF then Some (3, 0x80, 0xBF)
      else if p0 = 0xF0 then Some (4, 0x90, 0xBF)
      else if 0xF1 \<le> p0 \<and> p0 \<le> 0xF3 then Some (4, 0x80, 0xBF)
      else if p0 = 0xF4 then Some (4, 0x80, 0x8F)
      else None)"

text \<open>\<open>utf8.DecodeRune\<close>: the first rune of \<open>p\<close> and its width in bytes.\<close>

fun utf8_DecodeRune :: "string \<Rightarrow> rune \<times> nat" where
  "utf8_DecodeRune [] = (RuneError, 0)"
| "utf8_DecodeRune (c0 # p) =
     (let p0 = (of_char c0 :: nat) in
      if p0 < 0x80 then (p0, 1)
      else case first p0 of
        None \<Rightarrow> (RuneError, 1)
      | Some (sz, lo, hi) \<Rightarrow>
          if Suc (length p) < sz then (RuneError, 1)
          else let b1 = (of_char (p ! 0) :: nat) in
          if b1 < lo \<or> hi < b1 then (RuneError, 1)
          else if sz \<le> 2 then (p0 mod 32 * 64 + b1 mod 64, 2)
          else let b2 = (of_char (p ! 1) :: nat) in
          if b2 < 0x80 \<or> 0xBF < b2 then (RuneError, 1)
          else if sz \<le> 3 then (p0 mod 16 * 4096 + b1 mod 64 * 64 + b2 mod 64, 3)
          else let b3 = (of_char (p ! 2) :: nat) in
          if b3 < 0x80 \<or> 0xBF < b3 then (RuneError, 1)
          else (p0 mod 8 * 262144 + b1 mod 64 * 4096 + b2 mod 64 * 64 + b3 mod 64, 4))"

text \<open>The runes that \<open>for _, c := range s\<close> yields for a string \<open>s\<close>.\<close>

fun runes :: "string \<Rightarrow> rune list" where
  "runes [] = []"
| "runes (c # s) =
     fst (utf8_DecodeRune (c # s)) # runes (drop (snd (utf8_DecodeRune (c # s)) - 1) s)"

text \<open>\<open>utf8.AppendRune\<close> on an empty buffer: the UTF-8 encoding of a rune.\<close>

definition encode3 :: "rune \<Rightarrow> string" where
  "encode3 r = [char_of (0xE0 + r div 4096), char_of (0x80 + r div 64 mod 64),
                char_of (0x80 + r mod 64)]"

definition utf8_EncodeRune :: "rune \<Rightarrow> string" where
  "utf8_EncodeRune r =
     (if r \<le> 0x7F then [char_of r]
      else if r \<le> 0x7FF then [char_of (0xC0 + r div 64), char_of (0x80 + r mod 64)]
      else if r > 0x10FFFF \<or> (0xD800 \<le> r \<and> r \<le> 0xDFFF) then encode3 RuneError
      else if r \<le> 0xFFFF then encode3 r
      else [char_of (0xF0 + r div 262144), char_of (0x80 + r div 4096 mod 64),
            char_of (0x80 + r div 64 mod 64), char_of (0x80 + r mod 64)])"

text \<open>
  \<open>unicode.ToLower\<close>. The ASCII case is the code of the library; for the other runes
  the library looks the rune up in the table \<open>unicode.CaseRanges\<close>, which is taken as
  the parameter \<open>tab\<close>.
\<close>

definition unicode_ToLower :: "(rune \<Rightarrow> rune) \<Rightarrow> rune \<Rightarrow> rune" where
  "unicode_ToLower tab r =
     (if r \<le> 0x7F then (if 0x41 \<le> r \<and> r \<le> 0x5A then r + 0x20 else r) else tab r)"

text \<open>\<open>strings.Map\<close> for a mapping that never drops a rune.\<close>

definition strings_Map :: "(rune \<Rightarrow> rune) \<Rightarrow> string \<Rightarrow> string" where
  "strings_Map mapping s = concat (map (\<lambda>c. utf8_EncodeRune (mapping c)) (runes s))"

text \<open>The byte loop of \<open>strings.ToLower\<close> on an ASCII string: \<open>c += 'a' - 'A'\<close>.\<close>

definition isASCII :: "char \<Rightarrow> bool" where
  "isASCII c \<longleftrightarrow> (of_char c :: nat) < 0x80"

definition isUpper :: "char \<Rightarrow> bool" where
  "isUpper c \<longleftrightarrow> (0x41 :: nat) \<le> of_char c \<and> (of_char c :: nat) \<le> 0x5A"

definition asciiLower :: "char \<Rightarrow> char" where
  "asciiLower c = (if isUpper c then char_of (of_char c + (0x20 :: nat)) else c)"

definition strings_ToLower :: "(rune \<Rightarrow> rune) \<Rightarrow> string \<Rightarrow> string" where
  "strings_ToLower tab s =
     (if list_all isASCII s
      then (if list_ex isUpper s then map asciiLower s else s)
      else strings_Map (unicode_ToLower tab) s)"

text \<open>\<open>strings.HasPrefix\<close> and \<open>strings.Contains\<close>.\<close>

fun strings_HasPrefix :: "string \<Rightarrow> string \<Rightarrow> bool" where
  "strings_HasPrefix s [] = True"
| "strings_HasPrefix [] (p # ps) = False"
| "strings_HasPrefix (c # s) (p # ps) = (c = p \<and> strings_HasPrefix s ps)"

fun strings_Contains :: "string \<Rightarrow> string \<Rightarrow> bool" where
  "strings_Contains [] substr = (substr = [])"
| "strings_Contains (c # s) substr =
     (strings_HasPrefix (c # s) substr \<or> strings_Contains s substr)"

section \<open>Chat service: the classifier\<close>

text \<open>
  The entries of the map \<open>keywordDept\<close>. A Go map has no order: \<open>range\<close> visits every
  entry once, in an order that the language leaves unspecified and that differs from
  one loop to the next. The order of one execution of the loop is the parameter
  \<open>ord\<close> of \<open>routeDepartment\<close>; \<open>rangeOrder\<close> says that it is an order of this map.
\<close>

definition keywordDept :: "(string \<times> string) list" where
  "keywordDept =
     [(''towel'', ''Housekeeping''),
      (''clean'', ''Housekeeping''),
      (''food'', ''Room Service''),
      (''order'', ''Room Service''),
      (''checkout'', ''Front Desk''),
      (''wifi'', ''IT'')]"

definition rangeOrder :: "(string \<times> string) list \<Rightarrow> bool" where
  "rangeOrder ord \<longleftrightarrow> mset ord = mset keywordDept"

fun rangeLoop :: "(string \<times> string) list \<Rightarrow> string \<Rightarrow> string" where
  "rangeLoop [] lower = ''General''"
| "rangeLoop ((k, dept) # rest) lower =
     (if strings_Contains lower k then dept else rangeLoop rest lower)"

definition routeDepartment :: "(rune \<Rightarrow> rune) \<Rightarrow> (string \<times> string) list \<Rightarrow> string \<Rightarrow> string" where
  "routeDepartment tab ord text = rangeLoop ord (strings_ToLower tab text)"


section \<open>The JSON decoder of the Go library, for the envelope\<close>

text \<open>
  \<open>json.Unmarshal\<close> first runs the scanner of \<open>encoding/json\<close> over the whole input
  (\<open>checkValid\<close>) and gives a \<open>SyntaxError\<close> when it rejects; then it decodes into
  the target struct, remembering the first \<open>UnmarshalTypeError\<close>. The scanner is a
  state machine that reads one byte at a time: \<open>step\<close> is the state function it will
  call next and \<open>parseState\<close> the stack of open objects and arrays (its head is the
  innermost one).
\<close>

datatype scanCode =
  scanContinue | scanBeginLiteral | scanBeginObject | scanObjectKey | scanObjectValue
  | scanEndObject | scanBeginArray | scanArrayValue | scanEndArray | scanSkipSpace
  | scanEnd | scanError

datatype parseState = parseObjectKey | parseObjectValue | parseArrayValue

datatype stepFn =
  stBeginValueOrEmpty | stBeginValue | stBeginStringOrEmpty | stBeginString | stEndValue | stEndTop
  | stInString | stInStringEsc | stInStringEscU | stInStringEscU1 | stInStringEscU12 | stInStringEscU123
  | stNeg | stDigit1 | stDigit0 | stDot | stDot0 | stExp | stESign | stExp0
  | stT | stTr | stTru | stF | stFa | stFal | stFals | stN | stNu | stNul | stError

record scanner =
  step :: stepFn
  endTop :: bool
  parseState :: "parseState list"
  err :: bool

definition maxNestingDepth :: nat where
  "maxNestingDepth = 10000"

definition scanner_reset :: scanner where
  "scanner_reset = \<lparr>step = stBeginValue, endTop = False, parseState = [], err = False\<rparr>"

definition scanner_error :: "scanner \<Rightarrow> scanner \<times> scanCode" where
  "scanner_error s = (s\<lparr>step := stError, err := True\<rparr>, scanError)"

definition pushParseState :: "scanner \<Rightarrow> parseState \<Rightarrow> scanCode \<Rightarrow> scanner \<times> scanCode" where
  "pushParseState s newParseState successState =
     (let s' = s\<lparr>parseState := newParseState # parseState s\<rparr> in
      if length (parseState s') \<le> maxNestingDepth then (s', successState)
      else scanner_error s')"

definition popParseState :: "scanner \<Rightarrow> scanner" where
  "popParseState s =
     (let rest = tl (parseState s) in
      if rest = [] then s\<lparr>parseState := rest, step := stEndTop, endTop := True\<rparr>
      else s\<lparr>parseState := rest, step := stEndValue\<rparr>)"

definition isSpace :: "char \<Rightarrow> bool" where
  "isSpace c \<longleftrightarrow> c = CHR '' '' \<or> c = CHR 0x09 \<or> c = CHR 0x0D \<or> c = CHR 0x0A"

definition isDigit :: "char \<Rightarrow> bool" where
  "isDigit c \<longleftrightarrow> (0x30 :: nat) \<le> of_char c \<and> (of_char c :: nat) \<le> 0x39"

definition isHex :: "char \<Rightarrow> bool" where
  "isHex c \<longleftrightarrow> isDigit c
     \<or> ((0x61 :: nat) \<le> of_char c \<and> (of_char c :: nat) \<le> 0x66)
     \<or> ((0x41 :: nat) \<le> of_char c \<and> (of_char c :: nat) \<le> 0x46)"

definition stateEndTop :: "scanner \<Rightarrow> char \<Rightarrow> scanner \<times> scanCode" where
  "stateEndTop s c = (if \<not> isSpace c then (fst (scanner_error s), scanEnd) else (s, scanEnd))"

definition stateEndValue :: "scanner \<Rightarrow> char \<Rightarrow> scanner \<times> scanCode" where
  "stateEndValue s c =
     (case parseState s of
        [] \<Rightarrow> stateEndTop (s\<lparr>step := stEndTop, endTop := True\<rparr>) c
      | ps # rest \<Rightarrow>
          if isSpace c then (s\<lparr>step := stEndValue\<rparr>, scanSkipSpace)
          else (case ps of
            parseObjectKey \<Rightarrow>
              if c = CHR '':'' then
                (s\<lparr>parseState := parseObjectValue # rest, step := stBeginValue\<rparr>, scanObjectKey)
              else scanner_error s
          | parseObjectValue \<Rightarrow>
              if c = CHR '','' then
                (s\<lparr>parseState := parseObjectKey # rest, step := stBeginString\<rparr>, scanObjectValue)
              else if c = CHR ''}'' then (popParseState s, scanEndObject)
              else scanner_error s
          | parseArrayValue \<Rightarrow>
              if c = CHR '','' then (s\<lparr>step := stBeginValue\<rparr>, scanArrayValue)
              else if c = CHR '']'' then (popParseState s, scanEndArray)
              else scanner_error s))"

definition stateBeginValue :: "scanner \<Rightarrow> char \<Rightarrow> scanner \<times> scanCode" where
  "stateBeginValue s c =
     (if isSpace c then (s, scanSkipSpace)
      else if c = CHR ''{'' then
        pushParseState (s\<lparr>step := stBeginStringOrEmpty\<rparr>) parseObjectKey scanBeginObject
      else if c = CHR ''['' then
        pushParseState (s\<lparr>step := stBeginValueOrEmpty\<rparr>) parseArrayValue scanBeginArray
      else if c = CHR 0x22 then (s\<lparr>step := stInString\<rparr>, scanBeginLiteral)
      else if c = CHR ''-'' then (s\<lparr>step := stNeg\<rparr>, scanBeginLiteral)
      else if c = CHR ''0'' then (s\<lparr>step := stDigit0\<rparr>, scanBeginLiteral)
      else if c = CHR ''t'' then (s\<lparr>step := stT\<rparr>, scanBeginLiteral)
      else if c = CHR ''f'' then (s\<lparr>step := stF\<rparr>, scanBeginLiteral)
      else if c = CHR ''n'' then (s\<lparr>step := stN\<rparr>, scanBeginLiteral)
      else if isDigit c then (s\<lparr>step := stDigit1\<rparr>, scanBeginLiteral)
      else scanner_error s)"

definition stateBeginValueOrEmpty :: "scanner \<Rightarrow> char \<Rightarrow> scanner \<times> scanCode" where
  "stateBeginValueOrEmpty s c =
     (if isSpace c then (s, scanSkipSpace)
      else if c = CHR '']'' then stateEndValue s c
      else stateBeginValue s c)"

definition stateBeginString :: "scanner \<Rightarrow> char \<Rightarrow> scanner \<times> scanCode" where
  "stateBeginString s c =
     (if isSpace c then (s, scanSkipSpace)
      else if c = CHR 0x22 then (s\<lparr>step := stInString\<rparr>, scanBeginLiteral)
      else scanner_error s)"

definition stateBeginStringOrEmpty :: "scanner \<Rightarrow> char \<Rightarrow> scanner \<times> scanCode" where
  "stateBeginStringOrEmpty s c =
     (if isSpace c then (s, scanSkipSpace)
      else if c = CHR ''}'' then
        stateEndValue (s\<lparr>parseState := parseObjectValue # tl (parseState s)\<rparr>) c
      else stateBeginString s c)"

definition stateInString :: "scanner \<Rightarrow> char \<Rightarrow> scanner \<times> scanCode" where
  "stateInString s c =
     (if c = CHR 0x22 then (s\<lparr>step := stEndValue\<rparr>, scanContinue)
      else if c = CHR 0x5C then (s\<lparr>step := stInStringEsc\<rparr>, scanContinue)
      else if (of_char c :: nat) < 0x20 then scanner_error s
      else (s, scanContinue))"

definition stateInStringEsc :: "scanner \<Rightarrow> char \<Rightarrow> scanner \<times> scanCode" where
  "stateInStringEsc s c =
     (if c \<in> set [CHR ''b'', CHR ''f'', CHR ''n'', CHR ''r'', CHR ''t'', CHR 0x5C, CHR ''/'', CHR 0x22]
      then (s\<lparr>step := stInString\<rparr>, scanContinue)
      else if c = CHR ''u'' then (s\<lparr>step := stInStringEscU\<rparr>, scanContinue)
      else scanner_error s)"

text \<open>The four states after the \<open>u\<close> of a Unicode escape, each expecting a hexadecimal digit.\<close>

definition stateHex :: "stepFn \<Rightarrow> scanner \<Rightarrow> char \<Rightarrow> scanner \<times> scanCode" where
  "stateHex next s c = (if isHex c then (s\<lparr>step := next\<rparr>, scanContinue) else scanner_error s)"

text \<open>The states of a number.\<close>

definition state0 :: "scanner \<Rightarrow> char \<Rightarrow> scanner \<times> scanCode" where
  "state0 s c =
     (if c = CHR ''.'' then (s\<lparr>step := stDot\<rparr>, scanContinue)
      else if c = CHR ''e'' \<or> c = CHR ''E'' then (s\<lparr>step := stExp\<rparr>, scanContinue)
      else stateEndValue s c)"

definition state1 :: "scanner \<Rightarrow> char \<Rightarrow> scanner \<times> scanCode" where
  "state1 s c = (if isDigit c then (s\<lparr>step := stDigit1\<rparr>, scanContinue) else state0 s c)"

definition stateNeg :: "scanner \<Rightarrow> char \<Rightarrow> scanner \<times> scanCode" where
  "stateNeg s c =
     (if c = CHR ''0'' then (s\<lparr>step := stDigit0\<rparr>, scanContinue)
      else if isDigit c then (s\<lparr>step := stDigit1\<rparr>, scanContinue)
      else scanner_error s)"

definition stateDot :: "scanner \<Rightarrow> char \<Rightarrow> scanner \<times> scanCode" where
  "stateDot s c = (if isDigit c then (s\<lparr>step := stDot0\<rparr>, scanContinue) else scanner_error s)"

definition stateDot0 :: "scanner \<Rightarrow> char \<Rightarrow> scanner \<times> scanCode" where
  "stateDot0 s c =
     (if isDigit c then (s, scanContinue)
      else if c = CHR ''e'' \<or> c = CHR ''E'' then (s\<lparr>step := stExp\<rparr>, scanContinue)
      else stateEndValue s c)"

definition stateESign :: "scanner \<Rightarrow> char \<Rightarrow> scanner \<times> scanCode" where
  "stateESign s c = (if isDigit c then (s\<lparr>step := stExp0\<rparr>, scanContinue) else scanner_error s)"

definition stateE :: "scanner \<Rightarrow> char \<Rightarrow> scanner \<times> scanCode" where
  "stateE s c =
     (if c = CHR ''+'' \<or> c = CHR ''-'' then (s\<lparr>step := stESign\<rparr>, scanContinue)
      else stateESign s c)"

definition stateE0 :: "scanner \<Rightarrow> char \<Rightarrow> scanner \<times> scanCode" where
  "stateE0 s c = (if isDigit c then (s, scanContinue) else stateEndValue s c)"

text \<open>The states inside \<open>true\<close>, \<open>false\<close> and \<open>null\<close>: the next letter, or an error.\<close>

definition stateLetter :: "char \<Rightarrow> stepFn \<Rightarrow> scanner \<Rightarrow> char \<Rightarrow> scanner \<times> scanCode" where
  "stateLetter l next s c = (if c = l then (s\<lparr>step := next\<rparr>, scanContinue) else scanner_error s)"

text \<open>Calling \<open>s.step(s, c)\<close>.\<close>

definition scanner_step :: "scanner \<Rightarrow> char \<Rightarrow> scanner \<times> scanCode" where
  "scanner_step s c =
     (case step s of
        stBeginValueOrEmpty \<Rightarrow> stateBeginValueOrEmpty s c
      | stBeginValue \<Rightarrow> stateBeginValue s c
      | stBeginStringOrEmpty \<Rightarrow> stateBeginStringOrEmpty s c
      | stBeginString \<Rightarrow> stateBeginString s c
      | stEndValue \<Rightarrow> stateEndValue s c
      | stEndTop \<Rightarrow> stateEndTop s c
      | stInString \<Rightarrow> stateInString s c
      | stInStringEsc \<Rightarrow> stateInStringEsc s c
      | stInStringEscU \<Rightarrow> stateHex stInStringEscU1 s c
      | stInStringEscU1 \<Rightarrow> stateHex stInStringEscU12 s c
      | stInStringEscU12 \<Rightarrow> stateHex stInStringEscU123 s c
      | stInStringEscU123 \<Rightarrow> stateHex stInString s c
      | stNeg \<Rightarrow> stateNeg s c
      | stDigit1 \<Rightarrow> state1 s c
      | stDigit0 \<Rightarrow> state0 s c
      | stDot \<Rightarrow> stateDot s c
      | stDot0 \<Rightarrow> stateDot0 s c
      | stExp \<Rightarrow> stateE s c
      | stESign \<Rightarrow> stateESign s c
      | stExp0 \<Rightarrow> stateE0 s c
      | stT \<Rightarrow> stateLetter (CHR ''r'') stTr s c
      | stTr \<Rightarrow> stateLetter (CHR ''u'') stTru s c
      | stTru \<Rightarrow> stateLetter (CHR ''e'') stEndValue s c
      | stF \<Rightarrow> stateLetter (CHR ''a'') stFa s c
      | stFa \<Rightarrow> stateLetter (CHR ''l'') stFal s c
      | stFal \<Rightarrow> stateLetter (CHR ''s'') stFals s c
      | stFals \<Rightarrow> stateLetter (CHR ''e'') stEndValue s c
      | stN \<Rightarrow> stateLetter (CHR ''u'') stNu s c
      | stNu \<Rightarrow> stateLetter (CHR ''l'') stNul s c
      | stNul \<Rightarrow> stateLetter (CHR ''l'') stEndValue s c
      | stError \<Rightarrow> (s, scanError))"

text \<open>\<open>scanner.eof\<close>: the input has ended; did it end a top-level value?\<close>

definition scanner_eof :: "scanner \<Rightarrow> scanCode" where
  "scanner_eof s =
     (if err s then scanError
      else if endTop s then scanEnd
      else if endTop (fst (scanner_step s (CHR '' ''))) then scanEnd
      else scanError)"

subsection \<open>Decoding into the envelope struct\<close>

text \<open>
  The struct that the consumer decodes into, with the JSON names of its tags. The names
  of the fields carry the name of the struct, since several structs of the services
  have fields of the same name.
\<close>

record payload =
  payload_RequestID :: string
  payload_GuestID :: string
  payload_Department :: string
  payload_Request :: string

definition payload_zero :: payload where
  "payload_zero = \<lparr>payload_RequestID = [], payload_GuestID = [],
                    payload_Department = [], payload_Request = []\<rparr>"

definition payload_fields :: "string list" where
  "payload_fields = [''requestID'', ''guestID'', ''department'', ''request'']"

definition setField :: "string \<Rightarrow> string \<Rightarrow> payload \<Rightarrow> payload" where
  "setField f v p =
     (if f = ''requestID'' then p\<lparr>payload_RequestID := v\<rparr>
      else if f = ''guestID'' then p\<lparr>payload_GuestID := v\<rparr>
      else if f = ''department'' then p\<lparr>payload_Department := v\<rparr>
      else if f = ''request'' then p\<lparr>payload_Request := v\<rparr>
      else p)"

text \<open>
  A key of the input selects the field of that name or, when there is none, the field
  whose name is equal to it under case folding. Folding maps an ASCII letter to its
  capital and the two other runes that fold to an ASCII letter, the Kelvin sign and the
  long s, to \<open>K\<close> and \<open>S\<close>; every other rune folds to a rune outside ASCII and is
  kept as it is, which decides the comparison with a field name in the same way.
\<close>

definition foldRune :: "rune \<Rightarrow> rune" where
  "foldRune r =
     (if 0x61 \<le> r \<and> r \<le> 0x7A then r - 0x20
      else if r = 0x212A then 0x4B
      else if r = 0x17F then 0x53
      else r)"

definition foldName :: "string \<Rightarrow> rune list" where
  "foldName s = map foldRune (runes s)"

definition findField :: "string \<Rightarrow> string option" where
  "findField key =
     (if key \<in> set payload_fields then Some key
      else find (\<lambda>f. foldName f = foldName key) payload_fields)"

text \<open>
  The content of a string literal, as the decoder reads it: a byte of the input, the
  byte that a two-character escape stands for, or the 16-bit code unit of a
  Unicode escape (\<open>u\<close> and four hexadecimal digits). \<open>unquote\<close> gives the
  bytes of the Go string: a code unit is written in UTF-8, two code units that form a surrogate pair as one rune, a surrogate without
  its partner as \<open>RuneError\<close>, and bytes of the input that are not valid UTF-8 are
  replaced by \<open>RuneError\<close>, as \<open>unquoteBytes\<close> does.
\<close>

datatype unit = Raw char | Esc char | U16 nat

definition isSurrogate :: "rune \<Rightarrow> bool" where
  "isSurrogate r \<longleftrightarrow> 0xD800 \<le> r \<and> r < 0xE000"

definition utf16_DecodeRune :: "rune \<Rightarrow> rune \<Rightarrow> rune" where
  "utf16_DecodeRune r1 r2 =
     (if 0xD800 \<le> r1 \<and> r1 < 0xDC00 \<and> 0xDC00 \<le> r2 \<and> r2 < 0xE000
      then (r1 - 0xD800) * 1024 + (r2 - 0xDC00) + 0x10000
      else RuneError)"

fun rawPrefix :: "unit list \<Rightarrow> string" where
  "rawPrefix (Raw c # us) = c # rawPrefix us"
| "rawPrefix us = []"

fun unquote :: "unit list \<Rightarrow> string" where
  "unquote [] = []"
| "unquote (Esc c # us) = c # unquote us"
| "unquote (U16 rr # us) =
     (if isSurrogate rr then
        (case us of
           U16 rr1 # us' \<Rightarrow>
             if utf16_DecodeRune rr rr1 \<noteq> RuneError
             then utf8_EncodeRune (utf16_DecodeRune rr rr1) @ unquote us'
             else utf8_EncodeRune RuneError @ unquote us
         | _ \<Rightarrow> utf8_EncodeRune RuneError @ unquote us)
      else utf8_EncodeRune rr @ unquote us)"
| "unquote (Raw c # us) =
     (if isASCII c then c # unquote us
      else utf8_EncodeRune (fst (utf8_DecodeRune (c # rawPrefix us)))
           @ unquote (drop (snd (utf8_DecodeRune (c # rawPrefix us)) - 1) us))"

definition unescape :: "char \<Rightarrow> char" where
  "unescape c =
     (if c = CHR ''b'' then CHR 0x08
      else if c = CHR ''f'' then CHR 0x0C
      else if c = CHR ''n'' then CHR 0x0A
      else if c = CHR ''r'' then CHR 0x0D
      else if c = CHR ''t'' then CHR 0x09
      else c)"

definition hexval :: "char \<Rightarrow> nat" where
  "hexval c =
     (if isDigit c then of_char c - 0x30
      else if (0x61 :: nat) \<le> of_char c then of_char c - 0x61 + 10
      else of_char c - 0x41 + 10)"

text \<open>
  The state of the decoder: the scanner, the units of the string literal being read,
  the value of the digits of the Unicode escape being read, the key of the member of the top-level
  object being read, whether an \<open>UnmarshalTypeError\<close> has been saved, and the struct.
\<close>

record decodeState =
  scan :: scanner
  units :: "unit list"
  hex :: nat
  key :: "string option"
  savedError :: bool
  target :: payload

definition decodeState_init :: decodeState where
  "decodeState_init = \<lparr>scan = scanner_reset, units = [], hex = 0, key = None,
                         savedError = False, target = payload_zero\<rparr>"

text \<open>
  Where the value that begins in scanner state \<open>s\<close> goes: into the struct itself
  (the top-level value), into a field (the value of a member of the top-level object
  whose key selects a field), or nowhere (it is skipped).
\<close>

datatype dest = Struct | Field string | Skipped

definition destination :: "scanner \<Rightarrow> string option \<Rightarrow> dest" where
  "destination s k =
     (if parseState s = [] then Struct
      else if parseState s = [parseObjectValue] then
        (case k of None \<Rightarrow> Skipped
         | Some name \<Rightarrow> (case findField name of None \<Rightarrow> Skipped | Some f \<Rightarrow> Field f))
      else Skipped)"

text \<open>An object, or \<open>null\<close>, is what a struct takes; a string, or \<open>null\<close>, a field.\<close>

definition saveError :: "decodeState \<Rightarrow> decodeState" where
  "saveError d = d\<lparr>savedError := True\<rparr>"

definition beginValue :: "decodeState \<Rightarrow> scanner \<Rightarrow> char \<Rightarrow> decodeState" where
  "beginValue d s c =
     (if c = CHR 0x22 then d\<lparr>units := []\<rparr>
      else if c = CHR ''n'' then d
      else (case destination s (key d) of
              Struct \<Rightarrow> if c = CHR ''{'' then d else saveError d
            | Field f \<Rightarrow> saveError d
            | Skipped \<Rightarrow> d))"

definition endString :: "decodeState \<Rightarrow> scanner \<Rightarrow> decodeState" where
  "endString d s =
     (if parseState s = [parseObjectKey] then d\<lparr>key := Some (unquote (units d))\<rparr>
      else (case destination s (key d) of
              Struct \<Rightarrow> saveError d
            | Field f \<Rightarrow> d\<lparr>target := setField f (unquote (units d)) (target d)\<rparr>
            | Skipped \<Rightarrow> d))"

definition inLiteral :: "decodeState \<Rightarrow> scanner \<Rightarrow> char \<Rightarrow> decodeState" where
  "inLiteral d s c =
     (case step s of
        stInString \<Rightarrow>
          if c = CHR 0x22 then endString d s
          else if c = CHR 0x5C then d
          else d\<lparr>units := units d @ [Raw c]\<rparr>
      | stInStringEsc \<Rightarrow>
          if c = CHR ''u'' then d\<lparr>hex := 0\<rparr>
          else d\<lparr>units := units d @ [Esc (unescape c)]\<rparr>
      | stInStringEscU \<Rightarrow> d\<lparr>hex := hex d * 16 + hexval c\<rparr>
      | stInStringEscU1 \<Rightarrow> d\<lparr>hex := hex d * 16 + hexval c\<rparr>
      | stInStringEscU12 \<Rightarrow> d\<lparr>hex := hex d * 16 + hexval c\<rparr>
      | stInStringEscU123 \<Rightarrow> d\<lparr>units := units d @ [U16 (hex d * 16 + hexval c)]\<rparr>
      | _ \<Rightarrow> d)"

definition decode_step :: "decodeState \<Rightarrow> char \<Rightarrow> decodeState" where
  "decode_step d c =
     (let s = scan d; r = scanner_step s c; d' = d\<lparr>scan := fst r\<rparr> in
      if snd r = scanBeginLiteral \<or> snd r = scanBeginObject \<or> snd r = scanBeginArray
      then beginValue d' s c
      else if snd r = scanContinue then inLiteral d' s c
      else d')"

text \<open>\<open>checkValid\<close>: the scanner over the whole input, stopping at the first error.\<close>

fun checkValid_loop :: "scanner \<Rightarrow> string \<Rightarrow> bool" where
  "checkValid_loop s [] = (scanner_eof s \<noteq> scanError)"
| "checkValid_loop s (c # data) =
     (if snd (scanner_step s c) = scanError then False
      else checkValid_loop (fst (scanner_step s c)) data)"

definition checkValid :: "string \<Rightarrow> bool" where
  "checkValid data = checkValid_loop scanner_reset data"

datatype error = SyntaxError | UnmarshalTypeError | ReceiveError | InsertError

definition json_Unmarshal :: "string \<Rightarrow> error + payload" where
  "json_Unmarshal data =
     (if \<not> checkValid data then Inl SyntaxError
      else let d = foldl decode_step decodeState_init data in
        if savedError d then Inl UnmarshalTypeError else Inr (target d))"

section \<open>Chat service: the intake gateway\<close>

text \<open>
  \<open>fmt.Sprintf("%d", i)\<close>: the decimal digits of \<open>i\<close>, after a minus sign when it
  is negative.
\<close>

fun formatBits :: "nat \<Rightarrow> string" where
  "formatBits n =
     (if n < 10 then [char_of (0x30 + n)]
      else formatBits (n div 10) @ [char_of (0x30 + n mod 10)])"

declare formatBits.simps [simp del]

definition fmt_d :: "int \<Rightarrow> string" where
  "fmt_d i = (if i < 0 then CHR ''-'' # formatBits (nat (- i)) else formatBits (nat i))"

text \<open>The number that a string of decimal digits stands for.\<close>

definition digitVal :: "string \<Rightarrow> nat" where
  "digitVal ds = foldl (\<lambda>a c. 10 * a + (of_char c - 0x30)) 0 ds"

text \<open>
  The request identifier, \<open>fmt.Sprintf("%d-%d", time.Now().UnixNano(), rand.Intn(10000))\<close>
  in \<open>handleChatRequest\<close> (and the body of \<open>generateID\<close> in the chatbot service). The
  reading of the clock, an \<open>int64\<close>, and the number drawn, an \<open>int\<close> that is not
  negative, are its arguments.
\<close>

definition newRequestID :: "64 word \<Rightarrow> nat \<Rightarrow> string" where
  "newRequestID now rnd = fmt_d (sint now) @ ''-'' @ fmt_d (int rnd)"

record ChatRequest =
  req_GuestID :: string
  req_Text :: string
  req_VoiceTranscript :: string

record ChatResponse =
  resp_RequestID :: string
  resp_Status :: string
  resp_Department :: string

text \<open>The body of the queue message: the format string with its four \<open>%s\<close> filled in.\<close>

definition envelope :: "string \<Rightarrow> string \<Rightarrow> string \<Rightarrow> string \<Rightarrow> string" where
  "envelope requestID guestID department text =
     ''{\"requestID\":\"'' @ requestID @ ''\",\"guestID\":\"'' @ guestID
     @ ''\",\"department\":\"'' @ department @ ''\",\"request\":\"'' @ text @ ''\"}''"

text \<open>
  \<open>handleChatRequest\<close>, from the request that \<open>common.DecodeJSONBody\<close> has decoded
  (\<open>None\<close> when it has answered 400 instead): the body of the message handed to the
  sender of the queue, and the response. Sending happens in a goroutine of its own; its failure is logged only.
\<close>

datatype chatOutcome = BadRequest | Received (sent: string) (response: ChatResponse)

definition handleChatRequest ::
  "(rune \<Rightarrow> rune) \<Rightarrow> (string \<times> string) list \<Rightarrow> 64 word \<Rightarrow> nat \<Rightarrow> ChatRequest option \<Rightarrow> chatOutcome" where
  "handleChatRequest tab ord now rnd decoded =
     (case decoded of
        None \<Rightarrow> BadRequest
      | Some req \<Rightarrow>
          let requestID = newRequestID now rnd;
              department = routeDepartment tab ord (req_Text req @ '' '' @ req_VoiceTranscript req)
          in Received (envelope requestID (req_GuestID req) department (req_Text req))
               \<lparr>resp_RequestID = requestID, resp_Status = ''received'',
                resp_Department = department\<rparr>)"

section \<open>Work-order service\<close>

text \<open>
  A reading of the clock (\<open>time.Time\<close>) is a number of nanoseconds; an \<open>ObjectID\<close> is
  twelve bytes, all zero in a struct that has not been given one.
\<close>

type_synonym Time = int
type_synonym ObjectID = "96 word"

record Timestamps =
  Created :: Time
  Updated :: Time

record WorkOrder =
  wo_ID :: ObjectID
  wo_GuestID :: string
  wo_Department :: string
  wo_Request :: string
  wo_Status :: string
  wo_Timestamps :: Timestamps

record ReceivedMessage =
  MessageID :: string
  Body :: string

datatype logLine = LogReceiveError | LogInvalidBody | LogInsertError | LogCreated ObjectID

text \<open>
  The state of the service: the map \<open>statusStore\<close>, the documents of the collection,
  the messages that have been passed to \<open>CompleteMessage\<close> and the lines logged. The
  map holds pointers to the \<open>wo\<close> of the iteration that stored them; that variable is
  new in every iteration and nothing writes to it afterwards, so the map is modelled as
  holding the values.
\<close>

record service =
  statusStore :: "string \<rightharpoonup> WorkOrder"
  coll :: "WorkOrder list"
  completed :: "ReceivedMessage list"
  logged :: "logLine list"

definition service_start :: "WorkOrder list \<Rightarrow> service" where
  "service_start docs = \<lparr>statusStore = Map.empty, coll = docs, completed = [], logged = []\<rparr>"

text \<open>
  What one iteration of the loop gets from outside: the result of \<open>ReceiveMessage\<close>,
  the two readings of \<open>time.Now()\<close>, and the result of \<open>InsertOne\<close>.
\<close>

record iteration =
  received :: "error + ReceivedMessage"
  now1 :: Time
  now2 :: Time
  inserted :: "error + ObjectID"

text \<open>The struct literal and the two assignments of the time stamps.\<close>

definition constructWorkOrder :: "payload \<Rightarrow> Time \<Rightarrow> Time \<Rightarrow> WorkOrder" where
  "constructWorkOrder p t1 t2 =
     \<lparr>wo_ID = 0, wo_GuestID = payload_GuestID p, wo_Department = payload_Department p,
      wo_Request = payload_Request p, wo_Status = ''Pending'',
      wo_Timestamps = \<lparr>Created = t1, Updated = t2\<rparr>\<rparr>"

text \<open>
  The body of the loop of \<open>workOrderConsumer\<close>. A document that \<open>InsertOne\<close> has stored
  has the identifier it returns; a failed \<open>InsertOne\<close> is taken to have stored nothing.
\<close>

definition consumerIteration :: "iteration \<Rightarrow> service \<Rightarrow> service" where
  "consumerIteration e s =
     (case received e of
        Inl receiveErr \<Rightarrow> s\<lparr>logged := logged s @ [LogReceiveError]\<rparr>
      | Inr msg \<Rightarrow>
          (case json_Unmarshal (Body msg) of
             Inl decodeErr \<Rightarrow>
               s\<lparr>logged := logged s @ [LogInvalidBody], completed := completed s @ [msg]\<rparr>
           | Inr p \<Rightarrow>
               let wo = constructWorkOrder p (now1 e) (now2 e) in
               (case inserted e of
                  Inl insertErr \<Rightarrow>
                    s\<lparr>logged := logged s @ [LogInsertError],
                      completed := completed s @ [msg]\<rparr>
                | Inr insertedID \<Rightarrow>
                    s\<lparr>coll := coll s @ [wo\<lparr>wo_ID := insertedID\<rparr>],
                      logged := logged s @ [LogCreated insertedID],
                      statusStore := (statusStore s)(payload_RequestID p \<mapsto> wo),
                      completed := completed s @ [msg]\<rparr>)))"

text \<open>
  The loop has no exit: \<open>consumerLoop\<close> runs it for the iterations whose inputs are
  given, and returns the state in which the next iteration starts.
\<close>

fun consumerLoop :: "iteration list \<Rightarrow> service \<Rightarrow> service" where
  "consumerLoop [] s = s"
| "consumerLoop (e # es) s = consumerLoop es (consumerIteration e s)"

text \<open>
  \<open>workOrderConsumer\<close>: \<open>log.Fatalf\<close> ends the process (\<open>None\<close>) when the client of the
  queue, its receiver or the connection to the database cannot be made.
\<close>

definition workOrderConsumer :: "bool \<Rightarrow> bool \<Rightarrow> bool \<Rightarrow> iteration list \<Rightarrow> service \<Rightarrow> service option" where
  "workOrderConsumer clientOk receiverOk mongoOk es s =
     (if \<not> clientOk then None
      else if \<not> receiverOk then None
      else if \<not> mongoOk then None
      else Some (consumerLoop es s))"

text \<open>\<open>handleStatus\<close>: 404, or 200 with the work order encoded as JSON.\<close>

definition strings_TrimPrefix :: "string \<Rightarrow> string \<Rightarrow> string" where
  "strings_TrimPrefix s prefix = (if strings_HasPrefix s prefix then drop (length prefix) s else s)"

datatype statusResponse = NotFound | OK WorkOrder

definition handleStatus :: "service \<Rightarrow> string \<Rightarrow> statusResponse" where
  "handleStatus s path =
     (let requestID = strings_TrimPrefix path ''/api/v1/workorder/status/'' in
      case statusStore s requestID of
        None \<Rightarrow> NotFound
      | Some resp \<Rightarrow> OK resp)"

section \<open>Example data\<close>

text \<open>
  \<open>requestIDs\<close>: the identifiers that a sequence of calls gives, each call with the
  reading of the clock and the number drawn that it observes.
\<close>

definition requestIDs :: "(64 word \<times> nat) list \<Rightarrow> string list" where
  "requestIDs calls = map (\<lambda>(now, rnd). newRequestID now rnd) calls"

text \<open>
  The messages of the end-to-end scenarios: the envelope of the request
  \<open>I need clean towels\<close> of guest \<open>g1\<close>, a body that is not JSON, and an entry
  that the projection may already hold.
\<close>

definition scenarioA :: ReceivedMessage where
  "scenarioA = \<lparr>MessageID = ''m1'',
     Body = ''{\"requestID\":\"17-42\",\"guestID\":\"g1\",\"department\":\"Housekeeping\",\"request\":\"I need clean towels\"}''\<rparr>"

definition scenarioC :: ReceivedMessage where
  "scenarioC = \<lparr>MessageID = ''m2'', Body = ''not json''\<rparr>"

definition oldEntry :: WorkOrder where
  "oldEntry = \<lparr>wo_ID = 0, wo_GuestID = ''g0'', wo_Department = ''IT'',
      wo_Request = ''wifi is down'', wo_Status = ''Pending'',
      wo_Timestamps = \<lparr>Created = 1, Updated = 2\<rparr>\<rparr>"

section \<open>Notions used in the proofs\<close>

text \<open>
  A plain character: a printable ASCII character other than the double quote and the
  backslash. Inside a JSON string it stands for itself.
\<close>

definition plain :: "char \<Rightarrow> bool" where
  "plain c \<longleftrightarrow> (0x20 :: nat) \<le> of_char c \<and> (of_char c :: nat) < 0x80
     \<and> c \<noteq> CHR 0x22 \<and> c \<noteq> CHR 0x5C"

text \<open>
  The scanner inside the string that is the value of a member of the top-level object,
  and the decoder there, with the key \<open>k\<close> of the member, the units \<open>us\<close> read so far
  and the struct \<open>p\<close>.
\<close>

definition inValue :: scanner where
  "inValue = \<lparr>step = stInString, endTop = False, parseState = [parseObjectValue], err = False\<rparr>"

definition inMember :: "string \<Rightarrow> unit list \<Rightarrow> payload \<Rightarrow> decodeState" where
  "inMember k us p = \<lparr>scan = inValue, units = us, hex = 0, key = Some k,
                       savedError = False, target = p\<rparr>"

section \<open>Facts about the library functions\<close>

lemma HasPrefix_iff: "strings_HasPrefix s p \<longleftrightarrow> (\<exists>post. s = p @ post)"
  by (induction s p rule: strings_HasPrefix.induct) auto

lemma Contains_iff: "strings_Contains s sub \<longleftrightarrow> (\<exists>pre post. s = pre @ sub @ post)"
proof (induction s)
  case Nil
  then show ?case by auto
next
  case (Cons c s)
  show ?case
  proof
    assume "strings_Contains (c # s) sub"
    then consider "strings_HasPrefix (c # s) sub" | "strings_Contains s sub" by auto
    then show "\<exists>pre post. c # s = pre @ sub @ post"
    proof cases
      case 1
      then obtain post where "c # s = sub @ post" by (auto simp: HasPrefix_iff)
      then have "c # s = [] @ sub @ post" by simp
      then show ?thesis by blast
    next
      case 2
      then obtain pre post where "s = pre @ sub @ post" using Cons.IH by blast
      then have "c # s = (c # pre) @ sub @ post" by simp
      then show ?thesis by blast
    qed
  next
    assume "\<exists>pre post. c # s = pre @ sub @ post"
    then obtain pre post where e: "c # s = pre @ sub @ post" by blast
    show "strings_Contains (c # s) sub"
    proof (cases pre)
      case Nil
      with e have "strings_HasPrefix (c # s) sub" by (auto simp: HasPrefix_iff)
      then show ?thesis by simp
    next
      case (Cons a pre')
      with e have "s = pre' @ sub @ post" by simp
      then have "strings_Contains s sub" using Cons.IH by blast
      then show ?thesis by simp
    qed
  qed
qed

lemma DecodeRune_ascii: "isASCII c \<Longrightarrow> utf8_DecodeRune (c # s) = (of_char c, 1)"
  by (simp add: isASCII_def)

lemma runes_ascii: "isASCII c \<Longrightarrow> runes (c # s) = of_char c # runes s"
  by (simp add: isASCII_def)

lemma first_Some: "first p0 = Some (sz, lo, hi) \<Longrightarrow> 2 \<le> sz \<and> sz \<le> 4 \<and> 0x80 \<le> lo"
  by (auto simp: first_def split: if_splits)

lemma DecodeRune_width:
  assumes "isASCII c"
  shows "snd (utf8_DecodeRune (b # bs @ c # s)) - 1 \<le> length bs"
proof -
  have c: "(of_char c :: nat) < 0x80" using assms by (simp add: isASCII_def)
  show ?thesis
  proof (cases "first (of_char b)")
    case None
    then show ?thesis by (simp add: Let_def)
  next
    case (Some t)
    obtain sz lo hi where t: "t = (sz, lo, hi)" by (cases t) auto
    have f: "2 \<le> sz \<and> sz \<le> 4 \<and> 0x80 \<le> lo" using first_Some Some t by blast
    show ?thesis
    proof (cases bs)
      case Nil
      then show ?thesis using Some t f c by (auto simp: Let_def)
    next
      case (Cons b1 bs1)
      note bs = Cons
      show ?thesis
      proof (cases bs1)
        case Nil
        then show ?thesis using Some t f c bs by (auto simp: Let_def)
      next
        case (Cons b2 bs2)
        note bs1 = Cons
        show ?thesis
        proof (cases bs2)
          case Nil
          then show ?thesis using Some t f c bs bs1 by (auto simp: Let_def)
        next
          case (Cons b3 bs3)
          then show ?thesis using Some t f c bs bs1 by (auto simp: Let_def)
        qed
      qed
    qed
  qed
qed

lemma runes_append_ascii:
  "isASCII c \<Longrightarrow> \<exists>rs. runes (pre @ c # s) = rs @ runes (c # s)"
proof (induction "length pre" arbitrary: pre rule: less_induct)
  case less
  show ?case
  proof (cases pre)
    case Nil
    then show ?thesis by simp
  next
    case (Cons b bs)
    let ?k = "snd (utf8_DecodeRune (b # bs @ c # s)) - 1"
    have k: "?k \<le> length bs" using DecodeRune_width less.prems by blast
    have "runes (pre @ c # s) = fst (utf8_DecodeRune (b # bs @ c # s)) # runes (drop ?k (bs @ c # s))"
      using Cons by simp
    also have "drop ?k (bs @ c # s) = drop ?k bs @ c # s" using k by simp
    finally have e: "runes (pre @ c # s) = fst (utf8_DecodeRune (b # bs @ c # s)) # runes (drop ?k bs @ c # s)" .
    have "length (drop ?k bs) < length pre" using Cons by simp
    then obtain rs where "runes (drop ?k bs @ c # s) = rs @ runes (c # s)"
      using less.hyps less.prems by blast
    with e have "runes (pre @ c # s) = (fst (utf8_DecodeRune (b # bs @ c # s)) # rs) @ runes (c # s)"
      by simp
    then show ?thesis by blast
  qed
qed

lemma runes_ascii_word:
  "list_all isASCII w \<Longrightarrow> runes (w @ s) = map of_char w @ runes s"
  by (induction w) (simp_all add: isASCII_def)

lemma of_char_asciiLower:
  "isASCII c \<Longrightarrow> utf8_EncodeRune (unicode_ToLower tab (of_char c)) = [asciiLower c]"
  by (auto simp: isASCII_def utf8_EncodeRune_def unicode_ToLower_def asciiLower_def isUpper_def)

lemma Map_ascii_word:
  "list_all isASCII w \<Longrightarrow>
   concat (map (\<lambda>c. utf8_EncodeRune (unicode_ToLower tab c)) (map of_char w)) = map asciiLower w"
  by (induction w) (simp_all add: of_char_asciiLower)

lemma asciiLower_id: "\<not> isUpper c \<Longrightarrow> asciiLower c = c"
  by (simp add: asciiLower_def)

lemma ToLower_segment:
  assumes "list_all isASCII w"
  shows "\<exists>X Y. strings_ToLower tab (pre @ w @ post) = X @ map asciiLower w @ Y"
proof (cases "list_all isASCII (pre @ w @ post)")
  case True
  have "map asciiLower (pre @ w @ post) = pre @ w @ post" if "\<not> list_ex isUpper (pre @ w @ post)"
    using that by (intro map_idI) (auto simp: list_ex_iff asciiLower_def)
  then have "strings_ToLower tab (pre @ w @ post) = map asciiLower (pre @ w @ post)"
    using True by (auto simp: strings_ToLower_def simp del: map_append)
  then have "strings_ToLower tab (pre @ w @ post) = map asciiLower pre @ map asciiLower w @ map asciiLower post"
    by simp
  then show ?thesis by blast
next
  case False
  let ?f = "\<lambda>c. utf8_EncodeRune (unicode_ToLower tab c)"
  have m: "strings_ToLower tab (pre @ w @ post) = concat (map ?f (runes (pre @ w @ post)))"
    unfolding strings_ToLower_def strings_Map_def using False by (simp only: if_False)
  show ?thesis
  proof (cases w)
    case Nil
    have "strings_ToLower tab (pre @ w @ post) = strings_ToLower tab (pre @ w @ post) @ map asciiLower w @ []"
      using Nil by simp
    then show ?thesis by blast
  next
    case (Cons c cs)
    then have c: "isASCII c" using assms by simp
    obtain rs where "runes (pre @ c # (cs @ post)) = rs @ runes (c # (cs @ post))"
      using runes_append_ascii [OF c] by blast
    then have "runes (pre @ w @ post) = rs @ runes (w @ post)" using Cons by simp
    also have "runes (w @ post) = map of_char w @ runes post"
      using runes_ascii_word assms by blast
    finally have "strings_ToLower tab (pre @ w @ post)
        = concat (map ?f rs) @ concat (map ?f (map of_char w)) @ concat (map ?f (runes post))"
      using m by simp
    then show ?thesis using Map_ascii_word [OF assms] by metis
  qed
qed

section \<open>The classifier\<close>

lemma rangeLoop_in:
  "rangeLoop ord l = ''General'' \<or> (\<exists>k. (k, rangeLoop ord l) \<in> set ord \<and> strings_Contains l k)"
  by (induction ord l rule: rangeLoop.induct) auto

lemma rangeLoop_none:
  "list_all (\<lambda>e. \<not> strings_Contains l (fst e)) ord \<Longrightarrow> rangeLoop ord l = ''General''"
  by (induction ord l rule: rangeLoop.induct) auto

lemma rangeLoop_some:
  "(k, d) \<in> set ord \<Longrightarrow> strings_Contains l k \<Longrightarrow>
   \<exists>k'. (k', rangeLoop ord l) \<in> set ord \<and> strings_Contains l k'"
  by (induction ord l rule: rangeLoop.induct) auto

lemma rangeLoop_find:
  "rangeLoop ord l =
     (case find (\<lambda>e. strings_Contains l (fst e)) ord of None \<Rightarrow> ''General'' | Some e \<Rightarrow> snd e)"
  by (induction ord l rule: rangeLoop.induct) auto

lemma rangeOrder_set: "rangeOrder ord \<Longrightarrow> set ord = set keywordDept"
  unfolding rangeOrder_def by (rule mset_eq_setD)

lemma rangeLoop_one_dept:
  assumes "set ord = set keywordDept"
    and "\<forall>e \<in> set keywordDept. \<forall>e' \<in> set keywordDept.
           strings_Contains l (fst e) \<longrightarrow> strings_Contains l (fst e') \<longrightarrow> snd e = snd e'"
  shows "rangeLoop ord l = rangeLoop keywordDept l"
proof (cases "list_all (\<lambda>e. \<not> strings_Contains l (fst e)) keywordDept")
  case True
  then have "list_all (\<lambda>e. \<not> strings_Contains l (fst e)) ord"
    using assms(1) by (simp add: list_all_iff)
  then show ?thesis using True rangeLoop_none by simp
next
  case False
  then obtain k d where kd: "(k, d) \<in> set keywordDept" "strings_Contains l k"
    by (auto simp: list_all_iff)
  obtain k1 where k1: "(k1, rangeLoop ord l) \<in> set keywordDept" "strings_Contains l k1"
    using rangeLoop_some [of k d ord l] kd assms(1) by auto
  obtain k2 where k2: "(k2, rangeLoop keywordDept l) \<in> set keywordDept" "strings_Contains l k2"
    using rangeLoop_some [of k d keywordDept l] kd by auto
  show ?thesis using assms(2) k1 k2 by fastforce
qed

lemma towel_entry: "(''towel'', ''Housekeeping'') \<in> set keywordDept"
  by (simp add: keywordDept_def)

lemma rangeLoop_dept:
  "set ord = set keywordDept \<Longrightarrow>
   rangeLoop ord l \<in> {''Housekeeping'', ''Room Service'', ''Front Desk'', ''IT'', ''General''}"
  using rangeLoop_in [of ord l] by (auto simp: keywordDept_def)

lemma rangeOrder_front:
  assumes "(k, d) \<in> set keywordDept"
  shows "rangeOrder ((k, d) # remove1 (k, d) keywordDept)"
  using assms by (simp add: rangeOrder_def)

lemma rangeLoop_front: "strings_Contains l k \<Longrightarrow> rangeLoop ((k, d) # rest) l = d"
  by simp

text \<open>
  Claim C4, as the code has it. In every order of iteration, whatever the text, the
  first keyword of that order that the lower-cased text contains decides the
  department, and \<open>General\<close> is the answer when there is none. The department is the
  same in every order of iteration of the map, so that the classifier is deterministic,
  for every text whose keywords all belong to one department. Go does not fix the order
  in which \<open>range\<close> visits a map: for every text that contains keywords of two
  departments there are orders of the map that give the one department and orders
  that give the other.
\<close>

theorem routeDepartment_deterministic:
  "routeDepartment tab ord text =
     (case find (\<lambda>e. strings_Contains (strings_ToLower tab text) (fst e)) ord of
        None \<Rightarrow> ''General'' | Some e \<Rightarrow> snd e)
   \<and> (rangeOrder ord1 \<and> rangeOrder ord2
        \<and> (\<forall>e \<in> set keywordDept. \<forall>e' \<in> set keywordDept.
              strings_Contains (strings_ToLower tab text) (fst e) \<longrightarrow>
              strings_Contains (strings_ToLower tab text) (fst e') \<longrightarrow> snd e = snd e')
      \<longrightarrow> routeDepartment tab ord1 text = routeDepartment tab ord2 text)
   \<and> ((k1, d1) \<in> set keywordDept \<and> (k2, d2) \<in> set keywordDept \<and> d1 \<noteq> d2
        \<and> strings_Contains (strings_ToLower tab text) k1
        \<and> strings_Contains (strings_ToLower tab text) k2
      \<longrightarrow> (\<exists>o1 o2. rangeOrder o1 \<and> rangeOrder o2
             \<and> routeDepartment tab o1 text = d1 \<and> routeDepartment tab o2 text = d2
             \<and> routeDepartment tab o1 text \<noteq> routeDepartment tab o2 text))"
proof (intro conjI impI)
  let ?l = "strings_ToLower tab text"
  show "routeDepartment tab ord text =
     (case find (\<lambda>e. strings_Contains ?l (fst e)) ord of
        None \<Rightarrow> ''General'' | Some e \<Rightarrow> snd e)"
    unfolding routeDepartment_def by (rule rangeLoop_find)
  {
    assume a: "rangeOrder ord1 \<and> rangeOrder ord2
        \<and> (\<forall>e \<in> set keywordDept. \<forall>e' \<in> set keywordDept.
              strings_Contains ?l (fst e) \<longrightarrow> strings_Contains ?l (fst e') \<longrightarrow> snd e = snd e')"
    then have o: "rangeOrder ord1" "rangeOrder ord2"
      and h: "\<forall>e \<in> set keywordDept. \<forall>e' \<in> set keywordDept.
              strings_Contains ?l (fst e) \<longrightarrow> strings_Contains ?l (fst e') \<longrightarrow> snd e = snd e'"
      by blast+
    show "routeDepartment tab ord1 text = routeDepartment tab ord2 text"
      unfolding routeDepartment_def
      using rangeLoop_one_dept [OF rangeOrder_set [OF o(1)] h]
            rangeLoop_one_dept [OF rangeOrder_set [OF o(2)] h]
      by simp
  }
  {
    assume b: "(k1, d1) \<in> set keywordDept \<and> (k2, d2) \<in> set keywordDept \<and> d1 \<noteq> d2
        \<and> strings_Contains ?l k1 \<and> strings_Contains ?l k2"
    let ?o1 = "(k1, d1) # remove1 (k1, d1) keywordDept"
    let ?o2 = "(k2, d2) # remove1 (k2, d2) keywordDept"
    have r: "rangeOrder ?o1" "rangeOrder ?o2" using b rangeOrder_front by blast+
    have v: "routeDepartment tab ?o1 text = d1" "routeDepartment tab ?o2 text = d2"
      unfolding routeDepartment_def using b rangeLoop_front by blast+
    have "rangeOrder ?o1 \<and> rangeOrder ?o2
             \<and> routeDepartment tab ?o1 text = d1 \<and> routeDepartment tab ?o2 text = d2
             \<and> routeDepartment tab ?o1 text \<noteq> routeDepartment tab ?o2 text"
      using r v b by simp
    then show "\<exists>o1 o2. rangeOrder o1 \<and> rangeOrder o2
             \<and> routeDepartment tab o1 text = d1 \<and> routeDepartment tab o2 text = d2
             \<and> routeDepartment tab o1 text \<noteq> routeDepartment tab o2 text"
      by blast
  }
qed

text \<open>
  The theorem at the request \<open>I need clean Towels\<close>, in two orders of the map, and at
  the keywords \<open>towel\<close> and \<open>food\<close> of \<open>a towel and some food\<close>.
\<close>

theorem routeDepartment_deterministic_witness:
  "rangeOrder keywordDept \<and> rangeOrder (rotate 2 keywordDept)
   \<and> routeDepartment id keywordDept ''I need clean Towels''
       = routeDepartment id (rotate 2 keywordDept) ''I need clean Towels''
   \<and> (''towel'', ''Housekeeping'') \<in> set keywordDept
   \<and> (''food'', ''Room Service'') \<in> set keywordDept
   \<and> strings_Contains (strings_ToLower id ''a towel and some food'') ''towel''
   \<and> strings_Contains (strings_ToLower id ''a towel and some food'') ''food''
   \<and> (\<exists>o1 o2. rangeOrder o1 \<and> rangeOrder o2
         \<and> routeDepartment id o1 ''a towel and some food'' = ''Housekeeping''
         \<and> routeDepartment id o2 ''a towel and some food'' = ''Room Service'')"
proof -
  have h1: "rangeOrder keywordDept" by (simp add: rangeOrder_def)
  have h2: "rangeOrder (rotate 2 keywordDept)" by code_simp
  have h3: "\<forall>e \<in> set keywordDept. \<forall>e' \<in> set keywordDept.
      strings_Contains (strings_ToLower id ''I need clean Towels'') (fst e) \<longrightarrow>
      strings_Contains (strings_ToLower id ''I need clean Towels'') (fst e') \<longrightarrow> snd e = snd e'"
    by code_simp
  have k1: "(''towel'', ''Housekeeping'') \<in> set keywordDept" by (simp add: keywordDept_def)
  have k2: "(''food'', ''Room Service'') \<in> set keywordDept" by (simp add: keywordDept_def)
  have c1: "strings_Contains (strings_ToLower id ''a towel and some food'') ''towel''"
    by code_simp
  have c2: "strings_Contains (strings_ToLower id ''a towel and some food'') ''food''"
    by code_simp
  have d: "''Housekeeping'' \<noteq> ''Room Service''" by simp
  note t1 = routeDepartment_deterministic
    [of id keywordDept "''I need clean Towels''" keywordDept "rotate 2 keywordDept"]
  note t2 = routeDepartment_deterministic
    [of id keywordDept "''a towel and some food''" keywordDept keywordDept
        "''towel''" "''Housekeeping''" "''food''" "''Room Service''"]
  have a: "routeDepartment id keywordDept ''I need clean Towels''
       = routeDepartment id (rotate 2 keywordDept) ''I need clean Towels''"
    using t1 h1 h2 h3 by blast
  have b: "\<exists>o1 o2. rangeOrder o1 \<and> rangeOrder o2
         \<and> routeDepartment id o1 ''a towel and some food'' = ''Housekeeping''
         \<and> routeDepartment id o2 ''a towel and some food'' = ''Room Service''"
    using t2 k1 k2 c1 c2 d by blast
  show ?thesis using h1 h2 a k1 k2 c1 c2 b by blast
qed

text \<open>
  Claim C4 as it is stated fails: two evaluations that visit the map in different
  orders classify \<open>a towel and some food\<close> differently.
\<close>

theorem routeDepartment_order_counterexample:
  "rangeOrder keywordDept \<and> rangeOrder (rotate 2 keywordDept)
   \<and> routeDepartment id keywordDept ''a towel and some food'' = ''Housekeeping''
   \<and> routeDepartment id (rotate 2 keywordDept) ''a towel and some food'' = ''Room Service''"
  by code_simp

lemma isASCII_asciiLower: "isASCII (asciiLower c) \<Longrightarrow> isASCII c"
  by (cases "isUpper c") (auto simp: asciiLower_def isUpper_def isASCII_def)

lemma isASCII_word: "list_all isASCII (map asciiLower w) \<Longrightarrow> list_all isASCII w"
  by (induction w) (auto dest: isASCII_asciiLower)

lemma ToLower_Contains:
  assumes "list_all isASCII kw" and "map asciiLower w = kw"
  shows "strings_Contains (strings_ToLower tab (pre @ w @ post)) kw"
proof -
  have "list_all isASCII w" using assms isASCII_word by blast
  then obtain X Y where "strings_ToLower tab (pre @ w @ post) = X @ map asciiLower w @ Y"
    using ToLower_segment by blast
  then show ?thesis using assms(2) Contains_iff by blast
qed

text \<open>
  Claim C5, as the code has it, in every order of iteration of the map. A text that
  contains \<open>towel\<close> in any letter case (a word \<open>w\<close> whose lower-case form is \<open>towel\<close>,
  between any \<open>pre\<close> and \<open>post\<close>) and no keyword of another department is classified
  as Housekeeping; a text whose lower-case form contains no keyword is classified as
  General; and the department is always one of the five.
\<close>

theorem routeDepartment_towel_general:
  assumes "rangeOrder ord"
  shows "(map asciiLower w = ''towel'' \<and>
          (\<forall>e \<in> set keywordDept.
             strings_Contains (strings_ToLower tab (pre @ w @ post)) (fst e) \<longrightarrow> snd e = ''Housekeeping'')
          \<longrightarrow> routeDepartment tab ord (pre @ w @ post) = ''Housekeeping'')
       \<and> ((\<forall>e \<in> set keywordDept. \<not> strings_Contains (strings_ToLower tab text) (fst e))
          \<longrightarrow> routeDepartment tab ord text = ''General'')
       \<and> routeDepartment tab ord text \<in>
            {''Housekeeping'', ''Room Service'', ''Front Desk'', ''IT'', ''General''}"
proof (intro conjI impI)
  have s: "set ord = set keywordDept" using assms by (rule rangeOrder_set)
  show "routeDepartment tab ord text \<in>
            {''Housekeeping'', ''Room Service'', ''Front Desk'', ''IT'', ''General''}"
    unfolding routeDepartment_def using s by (rule rangeLoop_dept)
  {
    assume "\<forall>e \<in> set keywordDept. \<not> strings_Contains (strings_ToLower tab text) (fst e)"
    then have "list_all (\<lambda>e. \<not> strings_Contains (strings_ToLower tab text) (fst e)) ord"
      using s by (simp add: list_all_iff)
    then show "routeDepartment tab ord text = ''General''"
      unfolding routeDepartment_def by (rule rangeLoop_none)
  }
  {
    let ?l = "strings_ToLower tab (pre @ w @ post)"
    assume a: "map asciiLower w = ''towel'' \<and>
          (\<forall>e \<in> set keywordDept. strings_Contains ?l (fst e) \<longrightarrow> snd e = ''Housekeeping'')"
    have "list_all isASCII ''towel''" by (simp add: isASCII_def)
    then have "strings_Contains ?l ''towel''"
      using a ToLower_Contains [of "''towel''" w tab pre post] by simp
    then obtain k where "(k, rangeLoop ord ?l) \<in> set keywordDept" "strings_Contains ?l k"
      using rangeLoop_some [of "''towel''" "''Housekeeping''" ord ?l] towel_entry s by auto
    then show "routeDepartment tab ord (pre @ w @ post) = ''Housekeeping''"
      unfolding routeDepartment_def using a by fastforce
  }
qed

text \<open>The theorem at \<open>two ToWeLs please\<close> and at \<open>blah blah\<close>.\<close>

theorem routeDepartment_towel_general_witness:
  "rangeOrder (rotate 2 keywordDept)
   \<and> map asciiLower ''ToWeL'' = ''towel''
   \<and> routeDepartment id (rotate 2 keywordDept) (''two '' @ ''ToWeL'' @ ''s please'') = ''Housekeeping''
   \<and> routeDepartment id (rotate 2 keywordDept) ''blah blah'' = ''General''"
proof -
  have h1: "rangeOrder (rotate 2 keywordDept)" by code_simp
  have h2: "map asciiLower ''ToWeL'' = ''towel''" by code_simp
  have h3: "\<forall>e \<in> set keywordDept.
     strings_Contains (strings_ToLower id (''two '' @ ''ToWeL'' @ ''s please'')) (fst e) \<longrightarrow> snd e = ''Housekeeping''"
    by code_simp
  have h4: "\<forall>e \<in> set keywordDept. \<not> strings_Contains (strings_ToLower id ''blah blah'') (fst e)"
    by code_simp
  show ?thesis
    using routeDepartment_towel_general [OF h1, of "''ToWeL''" id "''two ''" "''s please''" "''blah blah''"] h1 h2 h3 h4
    by blast
qed

text \<open>
  Claim C5 as it is stated fails: a text that contains \<open>towel\<close> is classified as Room
  Service when it also contains \<open>food\<close> and the loop visits that keyword first.
\<close>

theorem routeDepartment_towel_counterexample:
  "rangeOrder (rotate 2 keywordDept)
   \<and> strings_Contains ''a towel and some food'' ''towel''
   \<and> routeDepartment id (rotate 2 keywordDept) ''a towel and some food'' = ''Room Service''"
  by code_simp

section \<open>The request identifier\<close>

lemma of_char_digit: "d < 10 \<Longrightarrow> (of_char (char_of (0x30 + d :: nat)) :: nat) = 0x30 + d"
  by (simp add: of_char_of)

lemma digitVal_formatBits: "digitVal (formatBits n) = n"
proof (induction n rule: formatBits.induct)
  case (1 n)
  show ?case
  proof (cases "n < 10")
    case True
    then show ?thesis by (subst formatBits.simps) (simp add: digitVal_def of_char_digit)
  next
    case False
    have m: "n mod 10 < 10" by simp
    have "digitVal (formatBits n) = 10 * digitVal (formatBits (n div 10)) + n mod 10"
      using False by (subst formatBits.simps) (simp add: digitVal_def of_char_digit [OF m])
    then show ?thesis using 1 False by simp
  qed
qed

lemma formatBits_inj: "formatBits m = formatBits n \<Longrightarrow> m = n"
  by (metis digitVal_formatBits)

lemma formatBits_digits: "c \<in> set (formatBits n) \<Longrightarrow> isDigit c"
proof (induction n rule: formatBits.induct)
  case (1 n)
  have d: "isDigit (char_of (0x30 + k :: nat))" if "k < 10" for k
    using that by (simp add: isDigit_def of_char_of)
  show ?case
  proof (cases "n < 10")
    case True
    then show ?thesis using 1(2) d by (subst (asm) formatBits.simps) auto
  next
    case False
    have "n mod 10 < 10" by simp
    then show ?thesis using False 1 d [of "n mod 10"] by (subst (asm) (2) formatBits.simps) auto
  qed
qed

lemma formatBits_nonempty: "formatBits n \<noteq> []"
  by (subst formatBits.simps) simp

lemma minus_not_digit: "\<not> isDigit (CHR ''-'')"
  by (simp add: isDigit_def)

lemma formatBits_no_minus: "CHR ''-'' \<notin> set (formatBits n)"
  using formatBits_digits minus_not_digit by blast

lemma fmt_d_inj: "fmt_d i = fmt_d j \<Longrightarrow> i = j"
proof -
  assume e: "fmt_d i = fmt_d j"
  have hd: "hd (formatBits n) \<noteq> CHR ''-''" for n
    using formatBits_no_minus [of n] formatBits_nonempty [of n] by (cases "formatBits n") auto
  show ?thesis
  proof (cases "i < 0")
    case True
    show ?thesis
    proof (cases "j < 0")
      case True
      with \<open>i < 0\<close> e have "formatBits (nat (- i)) = formatBits (nat (- j))" by (simp add: fmt_d_def)
      then have "nat (- i) = nat (- j)" by (rule formatBits_inj)
      then show ?thesis using True \<open>i < 0\<close> by simp
    next
      case False
      with \<open>i < 0\<close> e have "CHR ''-'' # formatBits (nat (- i)) = formatBits (nat j)" by (simp add: fmt_d_def)
      then have "hd (formatBits (nat j)) = CHR ''-''" using list.sel(1) [of "CHR ''-''" "formatBits (nat (- i))"] by simp
      then show ?thesis using hd [of "nat j"] by simp
    qed
  next
    case False
    show ?thesis
    proof (cases "j < 0")
      case True
      with False e have "formatBits (nat i) = CHR ''-'' # formatBits (nat (- j))" by (simp add: fmt_d_def)
      then have "hd (formatBits (nat i)) = CHR ''-''" by simp
      then show ?thesis using hd [of "nat i"] by simp
    next
      case False
      with \<open>\<not> i < 0\<close> e have "formatBits (nat i) = formatBits (nat j)" by (simp add: fmt_d_def)
      then have "nat i = nat j" by (rule formatBits_inj)
      then show ?thesis using False \<open>\<not> i < 0\<close> by simp
    qed
  qed
qed

lemma takeWhile_upto:
  "x \<notin> set zs \<Longrightarrow> takeWhile (\<lambda>c. c \<noteq> x) (zs @ x # ws) = zs"
  by (induction zs) auto

lemma split_last_minus:
  assumes "xs @ CHR ''-'' # ds = ys @ CHR ''-'' # es"
    and "CHR ''-'' \<notin> set ds" and "CHR ''-'' \<notin> set es"
  shows "xs = ys \<and> ds = es"
proof -
  have t: "takeWhile (\<lambda>c. c \<noteq> CHR ''-'') (rev zs @ CHR ''-'' # ws) = rev zs"
    if "CHR ''-'' \<notin> set zs" for zs ws
    using that takeWhile_upto [of "CHR ''-''" "rev zs" ws] by simp
  have r: "rev (xs @ CHR ''-'' # ds) = rev (ys @ CHR ''-'' # es)" using assms(1) by simp
  have "rev ds = takeWhile (\<lambda>c. c \<noteq> CHR ''-'') (rev (xs @ CHR ''-'' # ds))"
    using t [OF assms(2), of "rev xs"] by simp
  also have "\<dots> = rev es" unfolding r using t [OF assms(3), of "rev ys"] by simp
  finally have "ds = es" by simp
  then show ?thesis using assms(1) by simp
qed

lemma newRequestID_inj:
  "newRequestID t r = newRequestID t' r' \<longleftrightarrow> t = t' \<and> r = r'"
proof
  assume e: "newRequestID t r = newRequestID t' r'"
  have "fmt_d (sint t) @ CHR ''-'' # formatBits r = fmt_d (sint t') @ CHR ''-'' # formatBits r'"
    using e by (simp add: newRequestID_def fmt_d_def)
  then have "fmt_d (sint t) = fmt_d (sint t') \<and> formatBits r = formatBits r'"
    using split_last_minus formatBits_no_minus by blast
  then have "sint t = sint t' \<and> r = r'" using fmt_d_inj formatBits_inj by blast
  then have "sint t = sint t'" and "r = r'" by simp_all
  from this(1) have "t = t'" by (rule signed_word_eqI)
  then show "t = t' \<and> r = r'" using \<open>r = r'\<close> by simp
qed simp

text \<open>
  Claim C7, as the code has it. The identifier determines the reading of the clock and
  the number drawn: two calls give the same identifier exactly when they observe the
  same nanosecond and draw the same number. So the identifiers of any number of calls
  are pairwise distinct exactly when the pairs (clock reading, number drawn) that the
  calls observe are pairwise distinct.
\<close>

theorem requestIDs_distinct_iff:
  "(newRequestID t r = newRequestID t' r' \<longleftrightarrow> t = t' \<and> r = r')
   \<and> (distinct (requestIDs calls) \<longleftrightarrow> distinct calls)"
proof -
  have "inj_on (\<lambda>(now, rnd). newRequestID now rnd) (set calls)"
    by (auto simp: inj_on_def newRequestID_inj)
  then show ?thesis
    by (auto simp: requestIDs_def distinct_map newRequestID_inj)
qed

text \<open>
  Claim C7 as it is stated fails: two calls that observe the same reading of the clock
  and draw the same number get the same identifier.
\<close>

theorem requestIDs_counterexample:
  "length [(1700000000123456789 :: 64 word, 42 :: nat), (1700000000123456789, 42)] \<le> 10000
   \<and> \<not> distinct (requestIDs [(1700000000123456789, 42), (1700000000123456789, 42)])"
  by (simp add: requestIDs_def)

section \<open>The envelope between the gateway and the consumer\<close>

text \<open>
  The scanner and the decoder on the body that \<open>handleChatRequest\<close> sends, when
  the four strings in it are plain.
\<close>

lemma plain_step: "step s = stInString \<Longrightarrow> plain c \<Longrightarrow> scanner_step s c = (s, scanContinue)"
  by (simp add: scanner_step_def stateInString_def plain_def)

lemma checkValid_plain:
  "step s = stInString \<Longrightarrow> list_all plain w \<Longrightarrow>
   checkValid_loop s (w @ rest) = checkValid_loop s rest"
  by (induction w) (simp_all add: plain_step)

lemma decode_plain_step:
  "step (scan d) = stInString \<Longrightarrow> plain c \<Longrightarrow>
   decode_step d c = d\<lparr>units := units d @ [Raw c]\<rparr>"
  by (simp add: decode_step_def Let_def plain_step inLiteral_def plain_def)

lemma decode_plain:
  "step (scan d) = stInString \<Longrightarrow> list_all plain w \<Longrightarrow>
   foldl decode_step d (w @ rest) = foldl decode_step (d\<lparr>units := units d @ map Raw w\<rparr>) rest"
proof (induction w arbitrary: d)
  case Nil
  then show ?case by simp
next
  case (Cons c w)
  then show ?case by (simp add: decode_plain_step)
qed

lemma unquote_plain: "list_all plain w \<Longrightarrow> unquote (map Raw w) = w"
  by (induction w) (simp_all add: plain_def isASCII_def)

lemmas scan_defs = scanner_step_def stateBeginValue_def stateBeginString_def stateBeginStringOrEmpty_def
  stateEndValue_def stateEndTop_def stateInString_def pushParseState_def popParseState_def
  isSpace_def isDigit_def maxNestingDepth_def scanner_error_def scanner_eof_def

lemma valid_open:
  "checkValid_loop scanner_reset (''{\"requestID\":\"'' @ X) = checkValid_loop inValue X"
  by (simp add: scan_defs scanner_reset_def inValue_def)

lemma valid_next_guestID:
  "checkValid_loop inValue (''\",\"guestID\":\"'' @ X) = checkValid_loop inValue X"
  by (simp add: scan_defs inValue_def)

lemma valid_next_department:
  "checkValid_loop inValue (''\",\"department\":\"'' @ X) = checkValid_loop inValue X"
  by (simp add: scan_defs inValue_def)

lemma valid_next_request:
  "checkValid_loop inValue (''\",\"request\":\"'' @ X) = checkValid_loop inValue X"
  by (simp add: scan_defs inValue_def)

lemma valid_close: "checkValid_loop inValue ''\"}''"
  by (simp add: scan_defs inValue_def)

lemma inValue_step: "step inValue = stInString"
  by (simp add: inValue_def)

lemma checkValid_envelope:
  assumes "list_all plain a" "list_all plain b" "list_all plain c" "list_all plain d"
  shows "checkValid (envelope a b c d)"
proof -
  have "checkValid (envelope a b c d)
      = checkValid_loop inValue (a @ ''\",\"guestID\":\"'' @ b @ ''\",\"department\":\"'' @ c
          @ ''\",\"request\":\"'' @ d @ ''\"}'')"
    unfolding checkValid_def envelope_def using valid_open by simp
  also have "\<dots> = checkValid_loop inValue (''\",\"guestID\":\"'' @ b @ ''\",\"department\":\"'' @ c
          @ ''\",\"request\":\"'' @ d @ ''\"}'')"
    using checkValid_plain [OF inValue_step assms(1)] by blast
  also have "\<dots> = checkValid_loop inValue (b @ ''\",\"department\":\"'' @ c
          @ ''\",\"request\":\"'' @ d @ ''\"}'')"
    using valid_next_guestID by blast
  also have "\<dots> = checkValid_loop inValue (''\",\"department\":\"'' @ c
          @ ''\",\"request\":\"'' @ d @ ''\"}'')"
    using checkValid_plain [OF inValue_step assms(2)] by blast
  also have "\<dots> = checkValid_loop inValue (c @ ''\",\"request\":\"'' @ d @ ''\"}'')"
    using valid_next_department by blast
  also have "\<dots> = checkValid_loop inValue (''\",\"request\":\"'' @ d @ ''\"}'')"
    using checkValid_plain [OF inValue_step assms(3)] by blast
  also have "\<dots> = checkValid_loop inValue (d @ ''\"}'')"
    using valid_next_request by blast
  also have "\<dots> = checkValid_loop inValue ''\"}''"
    using checkValid_plain [OF inValue_step assms(4)] by blast
  finally show ?thesis using valid_close by simp
qed

lemmas decode_defs = decode_step_def beginValue_def inLiteral_def endString_def destination_def
  saveError_def findField_def payload_fields_def setField_def

lemma decode_open:
  "foldl decode_step decodeState_init (''{\"requestID\":\"'' @ X)
   = foldl decode_step (inMember ''requestID'' [] payload_zero) X"
  by (simp add: decode_defs scan_defs scanner_reset_def inValue_def inMember_def decodeState_init_def
      Let_def isASCII_def)

lemmas decode_simps = decode_defs scan_defs inValue_def inMember_def Let_def isASCII_def

lemma decode_next_guestID:
  "foldl decode_step (inMember ''requestID'' us p) (''\",\"guestID\":\"'' @ X)
   = foldl decode_step (inMember ''guestID'' [] (p\<lparr>payload_RequestID := unquote us\<rparr>)) X"
  by (simp add: decode_simps)

lemma decode_next_department:
  "foldl decode_step (inMember ''guestID'' us p) (''\",\"department\":\"'' @ X)
   = foldl decode_step (inMember ''department'' [] (p\<lparr>payload_GuestID := unquote us\<rparr>)) X"
  by (simp add: decode_simps)

lemma decode_next_request:
  "foldl decode_step (inMember ''department'' us p) (''\",\"request\":\"'' @ X)
   = foldl decode_step (inMember ''request'' [] (p\<lparr>payload_Department := unquote us\<rparr>)) X"
  by (simp add: decode_simps)

lemma decode_close:
  "savedError (foldl decode_step (inMember ''request'' us p) ''\"}'') = False
   \<and> target (foldl decode_step (inMember ''request'' us p) ''\"}'')
       = p\<lparr>payload_Request := unquote us\<rparr>"
  by (simp add: decode_simps)

lemma decode_member:
  "list_all plain w \<Longrightarrow>
   foldl decode_step (inMember k [] p) (w @ rest) = foldl decode_step (inMember k (map Raw w) p) rest"
  using decode_plain [of "inMember k [] p" w rest]
  by (simp add: inMember_def inValue_def)

lemma decode_envelope:
  assumes "list_all plain a" "list_all plain b" "list_all plain c" "list_all plain d"
  shows "savedError (foldl decode_step decodeState_init (envelope a b c d)) = False
       \<and> target (foldl decode_step decodeState_init (envelope a b c d))
           = \<lparr>payload_RequestID = a, payload_GuestID = b,
              payload_Department = c, payload_Request = d\<rparr>"
proof -
  let ?p1 = "payload_zero\<lparr>payload_RequestID := a\<rparr>"
  let ?p2 = "?p1\<lparr>payload_GuestID := b\<rparr>"
  let ?p3 = "?p2\<lparr>payload_Department := c\<rparr>"
  have "foldl decode_step decodeState_init (envelope a b c d)
      = foldl decode_step (inMember ''requestID'' [] payload_zero)
          (a @ ''\",\"guestID\":\"'' @ b @ ''\",\"department\":\"'' @ c
             @ ''\",\"request\":\"'' @ d @ ''\"}'')"
    unfolding envelope_def using decode_open by simp
  also have "\<dots> = foldl decode_step (inMember ''requestID'' (map Raw a) payload_zero)
          (''\",\"guestID\":\"'' @ b @ ''\",\"department\":\"'' @ c
             @ ''\",\"request\":\"'' @ d @ ''\"}'')"
    using decode_member [OF assms(1)] by blast
  also have "\<dots> = foldl decode_step (inMember ''guestID'' [] ?p1)
          (b @ ''\",\"department\":\"'' @ c @ ''\",\"request\":\"'' @ d @ ''\"}'')"
    using decode_next_guestID unquote_plain [OF assms(1)] by simp
  also have "\<dots> = foldl decode_step (inMember ''guestID'' (map Raw b) ?p1)
          (''\",\"department\":\"'' @ c @ ''\",\"request\":\"'' @ d @ ''\"}'')"
    using decode_member [OF assms(2)] by blast
  also have "\<dots> = foldl decode_step (inMember ''department'' [] ?p2)
          (c @ ''\",\"request\":\"'' @ d @ ''\"}'')"
    using decode_next_department unquote_plain [OF assms(2)] by simp
  also have "\<dots> = foldl decode_step (inMember ''department'' (map Raw c) ?p2)
          (''\",\"request\":\"'' @ d @ ''\"}'')"
    using decode_member [OF assms(3)] by blast
  also have "\<dots> = foldl decode_step (inMember ''request'' [] ?p3) (d @ ''\"}'')"
    using decode_next_request unquote_plain [OF assms(3)] by simp
  also have "\<dots> = foldl decode_step (inMember ''request'' (map Raw d) ?p3) ''\"}''"
    using decode_member [OF assms(4)] by blast
  finally have "foldl decode_step decodeState_init (envelope a b c d)
      = foldl decode_step (inMember ''request'' (map Raw d) ?p3) ''\"}''" .
  then show ?thesis
    using decode_close [of "map Raw d" ?p3] unquote_plain [OF assms(4)]
    by (simp add: payload_zero_def)
qed

lemma Unmarshal_envelope:
  assumes "list_all plain a" "list_all plain b" "list_all plain c" "list_all plain d"
  shows "json_Unmarshal (envelope a b c d)
           = Inr \<lparr>payload_RequestID = a, payload_GuestID = b,
                 payload_Department = c, payload_Request = d\<rparr>"
  using checkValid_envelope [OF assms] decode_envelope [OF assms]
  by (simp add: json_Unmarshal_def Let_def)

lemma plain_digit: "isDigit c \<Longrightarrow> plain c"
  by (auto simp: isDigit_def plain_def)

lemma fmt_d_plain: "list_all plain (fmt_d i)"
  using formatBits_digits plain_digit
  by (auto simp: fmt_d_def list_all_iff plain_def)

lemma newRequestID_plain: "list_all plain (newRequestID now rnd)"
  using fmt_d_plain by (simp add: newRequestID_def plain_def)

lemma routeDepartment_plain:
  assumes "rangeOrder ord"
  shows "list_all plain (routeDepartment tab ord text)"
proof -
  have "routeDepartment tab ord text
      \<in> {''Housekeeping'', ''Room Service'', ''Front Desk'', ''IT'', ''General''}"
    unfolding routeDepartment_def using rangeOrder_set [OF assms] by (rule rangeLoop_dept)
  moreover have "list_all plain ''Housekeeping''" "list_all plain ''Room Service''"
    "list_all plain ''Front Desk''" "list_all plain ''IT''" "list_all plain ''General''"
    by (simp_all add: plain_def)
  ultimately show ?thesis by auto
qed

lemma envelope_round_trip_plain:
  assumes "rangeOrder ord"
    and "list_all plain (req_GuestID req)" and "list_all plain (req_Text req)"
  shows "json_Unmarshal (sent (handleChatRequest tab ord now rnd (Some req)))
       = Inr \<lparr>payload_RequestID = newRequestID now rnd,
              payload_GuestID = req_GuestID req,
              payload_Department = routeDepartment tab ord (req_Text req @ '' '' @ req_VoiceTranscript req),
              payload_Request = req_Text req\<rparr>"
  using Unmarshal_envelope [OF newRequestID_plain assms(2) routeDepartment_plain [OF assms(1)] assms(3)]
  by (simp add: handleChatRequest_def Let_def)

text \<open>
  For a request whose \<open>guestID\<close> and \<open>text\<close> consist of plain characters, the body
  decodes in the consumer to the four values that the gateway has put in
  (\<open>envelope_round_trip_plain\<close>). What follows is about requests with a double quote
  in them: a quote in the \<open>guestID\<close>, and a text that closes the string and adds a
  member to the object.
\<close>

lemma quote_rejected_tail:
  "checkValid_loop inValue (''\",\"guestID\":\"g\"1\",\"department\":\"'' @ X) = False"
  by (simp add: scan_defs inValue_def)

lemma envelope_quote_rejected:
  assumes "list_all plain a"
  shows "json_Unmarshal (envelope a ''g\"1'' c d) = Inl SyntaxError"
proof -
  have "checkValid (envelope a ''g\"1'' c d)
      = checkValid_loop inValue (a @ ''\",\"guestID\":\"g\"1\",\"department\":\"'' @ c
          @ ''\",\"request\":\"'' @ d @ ''\"}'')"
    unfolding checkValid_def envelope_def using valid_open by simp
  also have "\<dots> = checkValid_loop inValue (''\",\"guestID\":\"g\"1\",\"department\":\"'' @ c
          @ ''\",\"request\":\"'' @ d @ ''\"}'')"
    using checkValid_plain [OF inValue_step assms] by blast
  also have "\<dots> = False" by (rule quote_rejected_tail)
  finally show ?thesis by (simp add: json_Unmarshal_def)
qed

lemma decode_next_requestID:
  "foldl decode_step (inMember ''request'' us p) (''\",\"requestID\":\"'' @ X)
   = foldl decode_step (inMember ''requestID'' [] (p\<lparr>payload_Request := unquote us\<rparr>)) X"
  by (simp add: decode_simps)

lemma decode_close_requestID:
  "savedError (foldl decode_step (inMember ''requestID'' us p) ''\"}'') = False
   \<and> target (foldl decode_step (inMember ''requestID'' us p) ''\"}'')
       = p\<lparr>payload_RequestID := unquote us\<rparr>"
  by (simp add: decode_simps)

lemma valid_next_requestID:
  "checkValid_loop inValue (''\",\"requestID\":\"'' @ X) = checkValid_loop inValue X"
  by (simp add: scan_defs inValue_def)


lemma envelope_member_decoded:
  assumes "list_all plain a" "list_all plain b" "list_all plain c" "list_all plain d"
    and "list_all plain r"
  shows "json_Unmarshal (envelope a b c (d @ ''\",\"requestID\":\"'' @ r))
           = Inr \<lparr>payload_RequestID = r, payload_GuestID = b,
                 payload_Department = c, payload_Request = d\<rparr>"
proof -
  let ?tail = "''\",\"requestID\":\"'' @ r @ ''\"}''"
  let ?p1 = "payload_zero\<lparr>payload_RequestID := a\<rparr>"
  let ?p2 = "?p1\<lparr>payload_GuestID := b\<rparr>"
  let ?p3 = "?p2\<lparr>payload_Department := c\<rparr>"
  let ?p4 = "?p3\<lparr>payload_Request := d\<rparr>"
  have v: "checkValid (envelope a b c (d @ ''\",\"requestID\":\"'' @ r))"
  proof -
    have "checkValid (envelope a b c (d @ ''\",\"requestID\":\"'' @ r))
        = checkValid_loop inValue (a @ ''\",\"guestID\":\"'' @ b @ ''\",\"department\":\"'' @ c
            @ ''\",\"request\":\"'' @ d @ ?tail)"
      unfolding checkValid_def envelope_def using valid_open by simp
    also have "\<dots> = checkValid_loop inValue (''\",\"guestID\":\"'' @ b @ ''\",\"department\":\"'' @ c
            @ ''\",\"request\":\"'' @ d @ ?tail)"
      using checkValid_plain [OF inValue_step assms(1)] by blast
    also have "\<dots> = checkValid_loop inValue (b @ ''\",\"department\":\"'' @ c
            @ ''\",\"request\":\"'' @ d @ ?tail)"
      using valid_next_guestID by blast
    also have "\<dots> = checkValid_loop inValue (''\",\"department\":\"'' @ c
            @ ''\",\"request\":\"'' @ d @ ?tail)"
      using checkValid_plain [OF inValue_step assms(2)] by blast
    also have "\<dots> = checkValid_loop inValue (c @ ''\",\"request\":\"'' @ d @ ?tail)"
      using valid_next_department by blast
    also have "\<dots> = checkValid_loop inValue (''\",\"request\":\"'' @ d @ ?tail)"
      using checkValid_plain [OF inValue_step assms(3)] by blast
    also have "\<dots> = checkValid_loop inValue (d @ ?tail)"
      using valid_next_request by blast
    also have "\<dots> = checkValid_loop inValue ?tail"
      using checkValid_plain [OF inValue_step assms(4)] by blast
    also have "\<dots> = checkValid_loop inValue (r @ ''\"}'')"
      using valid_next_requestID by blast
    also have "\<dots> = checkValid_loop inValue ''\"}''"
      using checkValid_plain [OF inValue_step assms(5)] by blast
    finally show ?thesis using valid_close by simp
  qed
  have "foldl decode_step decodeState_init (envelope a b c (d @ ''\",\"requestID\":\"'' @ r))
      = foldl decode_step (inMember ''requestID'' [] payload_zero)
          (a @ ''\",\"guestID\":\"'' @ b @ ''\",\"department\":\"'' @ c
             @ ''\",\"request\":\"'' @ d @ ?tail)"
    unfolding envelope_def using decode_open by simp
  also have "\<dots> = foldl decode_step (inMember ''requestID'' (map Raw a) payload_zero)
          (''\",\"guestID\":\"'' @ b @ ''\",\"department\":\"'' @ c
             @ ''\",\"request\":\"'' @ d @ ?tail)"
    using decode_member [OF assms(1)] by blast
  also have "\<dots> = foldl decode_step (inMember ''guestID'' [] ?p1)
          (b @ ''\",\"department\":\"'' @ c @ ''\",\"request\":\"'' @ d @ ?tail)"
    using decode_next_guestID unquote_plain [OF assms(1)] by simp
  also have "\<dots> = foldl decode_step (inMember ''guestID'' (map Raw b) ?p1)
          (''\",\"department\":\"'' @ c @ ''\",\"request\":\"'' @ d @ ?tail)"
    using decode_member [OF assms(2)] by blast
  also have "\<dots> = foldl decode_step (inMember ''department'' [] ?p2)
          (c @ ''\",\"request\":\"'' @ d @ ?tail)"
    using decode_next_department unquote_plain [OF assms(2)] by simp
  also have "\<dots> = foldl decode_step (inMember ''department'' (map Raw c) ?p2)
          (''\",\"request\":\"'' @ d @ ?tail)"
    using decode_member [OF assms(3)] by blast
  also have "\<dots> = foldl decode_step (inMember ''request'' [] ?p3) (d @ ?tail)"
    using decode_next_request unquote_plain [OF assms(3)] by simp
  also have "\<dots> = foldl decode_step (inMember ''request'' (map Raw d) ?p3) ?tail"
    using decode_member [OF assms(4)] by blast
  also have "\<dots> = foldl decode_step (inMember ''requestID'' [] ?p4) (r @ ''\"}'')"
    using decode_next_requestID unquote_plain [OF assms(4)] by simp
  also have "\<dots> = foldl decode_step (inMember ''requestID'' (map Raw r) ?p4) ''\"}''"
    using decode_member [OF assms(5)] by blast
  finally have "foldl decode_step decodeState_init (envelope a b c (d @ ''\",\"requestID\":\"'' @ r))
      = foldl decode_step (inMember ''requestID'' (map Raw r) ?p4) ''\"}''" .
  then show ?thesis
    using decode_close_requestID [of "map Raw r" ?p4] unquote_plain [OF assms(5)] v
    by (simp add: payload_zero_def json_Unmarshal_def Let_def)
qed

lemma towel_department:
  "routeDepartment id keywordDept (''towel\",\"requestID\":\"0-0'' @ '' '' @ []) = ''Housekeeping''"
  by code_simp

lemma clean_department:
  "routeDepartment id keywordDept (''I need clean towels'' @ '' '' @ []) = ''Housekeeping''"
  by code_simp

text \<open>
  Claim C2 at two requests. \<open>handleChatRequest\<close> puts the strings of the request
  between the quotes of the format string as they are. For the guest \<open>g"1\<close> the
  body it sends is not JSON, and \<open>json.Unmarshal\<close> in the consumer rejects it: none
  of the four values arrives. For a text that closes the string and adds a member, the
  body decodes, to a \<open>requestID\<close> and a \<open>request\<close> that are not the ones the
  gateway put in (the identifier it has answered with, and the whole text).
\<close>

theorem envelope_not_escaped:
  "json_Unmarshal (sent (handleChatRequest id keywordDept 1700000000123456789 42
      (Some \<lparr>req_GuestID = ''g\"1'', req_Text = ''I need clean towels'', req_VoiceTranscript = []\<rparr>)))
     = Inl SyntaxError
   \<and> json_Unmarshal (sent (handleChatRequest id keywordDept 1700000000123456789 42
      (Some \<lparr>req_GuestID = ''g1'', req_Text = ''towel\",\"requestID\":\"0-0'', req_VoiceTranscript = []\<rparr>)))
     = Inr \<lparr>payload_RequestID = ''0-0'', payload_GuestID = ''g1'',
          payload_Department = ''Housekeeping'', payload_Request = ''towel''\<rparr>
   \<and> resp_RequestID (response (handleChatRequest id keywordDept 1700000000123456789 42
      (Some \<lparr>req_GuestID = ''g1'', req_Text = ''towel\",\"requestID\":\"0-0'', req_VoiceTranscript = []\<rparr>)))
     \<noteq> ''0-0''"
proof -
  have q: "json_Unmarshal (envelope (newRequestID 1700000000123456789 42) ''g\"1'' ''Housekeeping''
      ''I need clean towels'') = Inl SyntaxError"
    by (rule envelope_quote_rejected) (rule newRequestID_plain)
  have m: "json_Unmarshal (envelope (newRequestID 1700000000123456789 42) ''g1'' ''Housekeeping''
      (''towel'' @ ''\",\"requestID\":\"'' @ ''0-0''))
     = Inr \<lparr>payload_RequestID = ''0-0'', payload_GuestID = ''g1'',
          payload_Department = ''Housekeeping'', payload_Request = ''towel''\<rparr>"
    by (rule envelope_member_decoded) (simp_all add: newRequestID_plain plain_def)
  have n: "newRequestID 1700000000123456789 42 \<noteq> ''0-0''"
  proof
    assume "newRequestID 1700000000123456789 42 = ''0-0''"
    moreover have "newRequestID 0 0 = ''0-0''" by code_simp
    ultimately have "newRequestID 1700000000123456789 42 = newRequestID 0 0" by simp
    then show False using newRequestID_inj [of 1700000000123456789 42 0 0] by simp
  qed
  show ?thesis using q m n towel_department clean_department
    by (simp add: handleChatRequest_def Let_def)
qed

section \<open>The work-order consumer and the status projection\<close>

lemma scenarioA_envelope:
  "Body scenarioA = envelope ''17-42'' ''g1'' ''Housekeeping'' ''I need clean towels''"
  by (simp add: scenarioA_def envelope_def)

lemma scenarioA_decodes:
  "json_Unmarshal (Body scenarioA) =
     Inr \<lparr>payload_RequestID = ''17-42'', payload_GuestID = ''g1'',
          payload_Department = ''Housekeeping'', payload_Request = ''I need clean towels''\<rparr>"
  unfolding scenarioA_envelope by (rule Unmarshal_envelope) (simp_all add: plain_def)

lemma scenarioC_rejected: "json_Unmarshal (Body scenarioC) = Inl SyntaxError"
  by code_simp

text \<open>
  A body decodes whenever it is JSON that the struct can take; the empty object decodes
  to the struct with four empty strings.
\<close>

lemma empty_object_decodes: "json_Unmarshal ''{}'' = Inr payload_zero"
  by code_simp

text \<open>The four ways through the body of the loop.\<close>

lemma iteration_receive_error:
  assumes "received e = Inl receiveErr"
  shows "consumerIteration e s = s\<lparr>logged := logged s @ [LogReceiveError]\<rparr>"
  using assms by (simp add: consumerIteration_def)

lemma iteration_invalid_body:
  assumes "received e = Inr msg" and "json_Unmarshal (Body msg) = Inl decodeErr"
  shows "consumerIteration e s =
           s\<lparr>logged := logged s @ [LogInvalidBody], completed := completed s @ [msg]\<rparr>"
  using assms by (simp add: consumerIteration_def)

lemma iteration_insert_failed:
  assumes "received e = Inr msg" and "json_Unmarshal (Body msg) = Inr p"
    and "inserted e = Inl insertErr"
  shows "consumerIteration e s =
           s\<lparr>logged := logged s @ [LogInsertError], completed := completed s @ [msg]\<rparr>"
  using assms by (simp add: consumerIteration_def)

lemma iteration_created:
  assumes "received e = Inr msg" and "json_Unmarshal (Body msg) = Inr p"
    and "inserted e = Inr oid"
  shows "consumerIteration e s =
           s\<lparr>coll := coll s @ [(constructWorkOrder p (now1 e) (now2 e))\<lparr>wo_ID := oid\<rparr>],
             logged := logged s @ [LogCreated oid],
             statusStore := (statusStore s)(payload_RequestID p \<mapsto> constructWorkOrder p (now1 e) (now2 e)),
             completed := completed s @ [msg]\<rparr>"
  using assms by (simp add: consumerIteration_def Let_def)

lemma HasPrefix_append: "strings_HasPrefix (p @ s) p"
  by (induction p) simp_all

lemma TrimPrefix_append: "strings_TrimPrefix (p @ s) p = s"
  by (simp add: strings_TrimPrefix_def HasPrefix_append)

lemma handleStatus_lookup:
  "handleStatus s (''/api/v1/workorder/status/'' @ rid) =
     (case statusStore s rid of None \<Rightarrow> NotFound | Some resp \<Rightarrow> OK resp)"
  unfolding handleStatus_def Let_def TrimPrefix_append ..

text \<open>
  Claim C1, as the code has it. When the body of a received message decodes and
  \<open>InsertOne\<close> fails, the consumer logs the error, stores no document and writes no
  entry of the projection; it then completes (acknowledges) the message all the same,
  since \<open>CompleteMessage\<close> follows the \<open>if\<close> on both of its branches, and goes on
  with the next iteration. The message is not left to the queue for redelivery.
\<close>

theorem insert_failure_acknowledged:
  assumes "received e = Inr msg" and "json_Unmarshal (Body msg) = Inr p"
    and "inserted e = Inl insertErr"
  shows "logged (consumerIteration e s) = logged s @ [LogInsertError]
       \<and> completed (consumerIteration e s) = completed s @ [msg]
       \<and> statusStore (consumerIteration e s) = statusStore s
       \<and> coll (consumerIteration e s) = coll s
       \<and> consumerLoop (e # es) s = consumerLoop es (consumerIteration e s)"
  by (simp add: iteration_insert_failed [OF assms])

text \<open>The theorem at the envelope of scenario A, with a failing insert.\<close>

theorem insert_failure_acknowledged_witness:
  "json_Unmarshal (Body scenarioA) = Inr \<lparr>payload_RequestID = ''17-42'', payload_GuestID = ''g1'',
          payload_Department = ''Housekeeping'', payload_Request = ''I need clean towels''\<rparr>
   \<and> logged (consumerIteration \<lparr>received = Inr scenarioA, now1 = 1, now2 = 2, inserted = Inl InsertError\<rparr> (service_start [])) = [LogInsertError]
   \<and> completed (consumerIteration \<lparr>received = Inr scenarioA, now1 = 1, now2 = 2, inserted = Inl InsertError\<rparr> (service_start [])) = [scenarioA]
   \<and> coll (consumerIteration \<lparr>received = Inr scenarioA, now1 = 1, now2 = 2, inserted = Inl InsertError\<rparr> (service_start [])) = []"
  using insert_failure_acknowledged [of "\<lparr>received = Inr scenarioA, now1 = 1, now2 = 2, inserted = Inl InsertError\<rparr>" scenarioA _ InsertError "service_start []" "[]"]
    scenarioA_decodes
  by (simp add: service_start_def)

text \<open>
  Claim C1 as it is stated fails: the message of scenario A is among the completed
  messages after an iteration in which its insert has failed.
\<close>

theorem insert_failure_counterexample:
  "received \<lparr>received = Inr scenarioA, now1 = 1, now2 = 2, inserted = Inl InsertError\<rparr> = Inr scenarioA
   \<and> json_Unmarshal (Body scenarioA) = Inr \<lparr>payload_RequestID = ''17-42'', payload_GuestID = ''g1'',
          payload_Department = ''Housekeeping'', payload_Request = ''I need clean towels''\<rparr>
   \<and> scenarioA \<in> set (completed (consumerIteration
         \<lparr>received = Inr scenarioA, now1 = 1, now2 = 2, inserted = Inl InsertError\<rparr> (service_start [])))"
  by (simp add: scenarioA_decodes consumerIteration_def service_start_def)

text \<open>
  Claim C6. When the body of a received message does not decode, the consumer completes
  (acknowledges) the message, stores no document, writes no entry of the projection,
  and goes on with the next iteration.
\<close>

theorem malformed_message_acknowledged:
  assumes "received e = Inr msg" and "json_Unmarshal (Body msg) = Inl decodeErr"
  shows "completed (consumerIteration e s) = completed s @ [msg]
       \<and> coll (consumerIteration e s) = coll s
       \<and> statusStore (consumerIteration e s) = statusStore s
       \<and> consumerLoop (e # es) s = consumerLoop es (consumerIteration e s)"
  by (simp add: iteration_invalid_body [OF assms])

text \<open>
  The theorem at scenario C: the body \<open>not json\<close> is completed and dropped, and the
  envelope of scenario A that follows it is processed.
\<close>

theorem malformed_message_acknowledged_witness:
  "json_Unmarshal (Body scenarioC) = Inl SyntaxError
   \<and> completed (consumerIteration \<lparr>received = Inr scenarioC, now1 = 1, now2 = 2, inserted = Inr 7\<rparr>
        (service_start [])) = [scenarioC]
   \<and> coll (consumerIteration \<lparr>received = Inr scenarioC, now1 = 1, now2 = 2, inserted = Inr 7\<rparr>
        (service_start [])) = []
   \<and> handleStatus (consumerLoop
        [\<lparr>received = Inr scenarioC, now1 = 1, now2 = 2, inserted = Inr 7\<rparr>,
         \<lparr>received = Inr scenarioA, now1 = 3, now2 = 4, inserted = Inr 8\<rparr>] (service_start []))
        ''/api/v1/workorder/status/17-42''
      = OK \<lparr>wo_ID = 0, wo_GuestID = ''g1'', wo_Department = ''Housekeeping'',
            wo_Request = ''I need clean towels'', wo_Status = ''Pending'',
            wo_Timestamps = \<lparr>Created = 3, Updated = 4\<rparr>\<rparr>"
proof -
  let ?e = "\<lparr>received = Inr scenarioC, now1 = 1, now2 = 2, inserted = Inr (7 :: ObjectID)\<rparr>"
  let ?e' = "\<lparr>received = Inr scenarioA, now1 = 3, now2 = 4, inserted = Inr (8 :: ObjectID)\<rparr>"
  let ?p = "\<lparr>payload_RequestID = ''17-42'', payload_GuestID = ''g1'',
          payload_Department = ''Housekeeping'', payload_Request = ''I need clean towels''\<rparr>"
  let ?s = "consumerIteration ?e (service_start [])"
  have r: "received ?e = Inr scenarioC" by simp
  note m = malformed_message_acknowledged [OF r scenarioC_rejected, of "service_start []" "[?e']"]
  have a: "consumerIteration ?e' ?s =
        ?s\<lparr>coll := coll ?s @ [(constructWorkOrder ?p 3 4)\<lparr>wo_ID := 8\<rparr>],
           logged := logged ?s @ [LogCreated 8],
           statusStore := (statusStore ?s)(''17-42'' \<mapsto> constructWorkOrder ?p 3 4),
           completed := completed ?s @ [scenarioA]\<rparr>"
    using iteration_created [of ?e' scenarioA _ 8, OF _ scenarioA_decodes] by simp
  have "handleStatus (consumerLoop [?e, ?e'] (service_start [])) (''/api/v1/workorder/status/'' @ ''17-42'')
      = OK (constructWorkOrder ?p 3 4)"
    unfolding handleStatus_lookup using m a by simp
  then show ?thesis using m scenarioC_rejected
    by (simp add: service_start_def constructWorkOrder_def)
qed

text \<open>
  Claim C3, as the code has it. The struct \<open>WorkOrder\<close> has no field for the request
  identifier: the work order takes \<open>guestID\<close>, \<open>department\<close> and \<open>request\<close> from the
  envelope and is the same whatever the \<open>requestID\<close> of the envelope is. The
  \<open>requestID\<close> of the envelope is the key under which the work order is put into the
  projection after a successful insert, and so the key by which a status query finds
  it.
\<close>

theorem requestID_is_projection_key:
  assumes "received e = Inr msg" and "json_Unmarshal (Body msg) = Inr p"
    and "inserted e = Inr oid"
  shows "statusStore (consumerIteration e s) (payload_RequestID p)
           = Some (constructWorkOrder p (now1 e) (now2 e))
       \<and> handleStatus (consumerIteration e s) (''/api/v1/workorder/status/'' @ payload_RequestID p)
           = OK (constructWorkOrder p (now1 e) (now2 e))
       \<and> constructWorkOrder (p\<lparr>payload_RequestID := r\<rparr>) (now1 e) (now2 e)
           = constructWorkOrder p (now1 e) (now2 e)
       \<and> wo_GuestID (constructWorkOrder p (now1 e) (now2 e)) = payload_GuestID p
       \<and> wo_Department (constructWorkOrder p (now1 e) (now2 e)) = payload_Department p
       \<and> wo_Request (constructWorkOrder p (now1 e) (now2 e)) = payload_Request p"
  unfolding handleStatus_lookup
  by (simp add: iteration_created [OF assms] constructWorkOrder_def)

text \<open>The theorem at the envelope of scenario A.\<close>

theorem requestID_is_projection_key_witness:
  "json_Unmarshal (Body scenarioA) = Inr \<lparr>payload_RequestID = ''17-42'', payload_GuestID = ''g1'',
          payload_Department = ''Housekeeping'', payload_Request = ''I need clean towels''\<rparr>
   \<and> handleStatus (consumerIteration
        \<lparr>received = Inr scenarioA, now1 = 3, now2 = 4, inserted = Inr 8\<rparr> (service_start []))
        ''/api/v1/workorder/status/17-42''
      = OK \<lparr>wo_ID = 0, wo_GuestID = ''g1'', wo_Department = ''Housekeeping'',
            wo_Request = ''I need clean towels'', wo_Status = ''Pending'',
            wo_Timestamps = \<lparr>Created = 3, Updated = 4\<rparr>\<rparr>"
  using requestID_is_projection_key [of "\<lparr>received = Inr scenarioA, now1 = 3, now2 = 4, inserted = Inr 8\<rparr>"
      scenarioA _ 8 "service_start []" "[]", OF _ scenarioA_decodes]
    scenarioA_decodes
  by (simp add: constructWorkOrder_def)

text \<open>
  Claim C3 as it is stated fails: the envelopes of two requests that differ in their
  \<open>requestID\<close> only give the same work order, which therefore carries neither.
\<close>

theorem requestID_field_counterexample:
  "constructWorkOrder \<lparr>payload_RequestID = ''17-42'', payload_GuestID = ''g1'',
       payload_Department = ''Housekeeping'', payload_Request = ''I need clean towels''\<rparr> 3 4
   = constructWorkOrder \<lparr>payload_RequestID = ''99-1'', payload_GuestID = ''g1'',
       payload_Department = ''Housekeeping'', payload_Request = ''I need clean towels''\<rparr> 3 4
   \<and> ''17-42'' \<noteq> ''99-1''"
  by (simp add: constructWorkOrder_def)

text \<open>
  Claim C8, as the code has it. The work order that the consumer makes from a valid
  envelope has the status \<open>Pending\<close>; its \<open>created\<close> time is the first reading of the
  clock and its \<open>updated\<close> time a second reading taken after it, so that the two are
  equal exactly when the two readings are.
\<close>

theorem work_order_pending_timestamps:
  assumes "received e = Inr msg" and "json_Unmarshal (Body msg) = Inr p"
    and "inserted e = Inr oid"
  shows "\<exists>wo. statusStore (consumerIteration e s) (payload_RequestID p) = Some wo
            \<and> coll (consumerIteration e s) = coll s @ [wo\<lparr>wo_ID := oid\<rparr>]
            \<and> wo_Status wo = ''Pending''
            \<and> Created (wo_Timestamps wo) = now1 e
            \<and> Updated (wo_Timestamps wo) = now2 e
            \<and> (Created (wo_Timestamps wo) = Updated (wo_Timestamps wo) \<longleftrightarrow> now1 e = now2 e)"
  by (simp add: iteration_created [OF assms] constructWorkOrder_def)

text \<open>The theorem at the envelope of scenario A.\<close>

theorem work_order_pending_timestamps_witness:
  "json_Unmarshal (Body scenarioA) = Inr \<lparr>payload_RequestID = ''17-42'', payload_GuestID = ''g1'',
          payload_Department = ''Housekeeping'', payload_Request = ''I need clean towels''\<rparr>
   \<and> (\<exists>wo. statusStore (consumerIteration
          \<lparr>received = Inr scenarioA, now1 = 3, now2 = 3, inserted = Inr 8\<rparr> (service_start [])) ''17-42''
          = Some wo
        \<and> wo_Status wo = ''Pending''
        \<and> Created (wo_Timestamps wo) = 3 \<and> Updated (wo_Timestamps wo) = 3)"
  using work_order_pending_timestamps [of "\<lparr>received = Inr scenarioA, now1 = 3, now2 = 3, inserted = Inr 8\<rparr>"
      scenarioA _ 8 "service_start []", OF _ scenarioA_decodes]
    scenarioA_decodes
  by auto

text \<open>
  Claim C8 as it is stated fails: with the readings 3 and 4 of the clock, the work
  order of scenario A has different \<open>created\<close> and \<open>updated\<close> times.
\<close>

theorem timestamps_counterexample:
  "json_Unmarshal (Body scenarioA) = Inr \<lparr>payload_RequestID = ''17-42'', payload_GuestID = ''g1'',
          payload_Department = ''Housekeeping'', payload_Request = ''I need clean towels''\<rparr>
   \<and> statusStore (consumerIteration
        \<lparr>received = Inr scenarioA, now1 = 3, now2 = 4, inserted = Inr 8\<rparr> (service_start [])) ''17-42''
     = Some \<lparr>wo_ID = 0, wo_GuestID = ''g1'', wo_Department = ''Housekeeping'',
            wo_Request = ''I need clean towels'', wo_Status = ''Pending'',
            wo_Timestamps = \<lparr>Created = 3, Updated = 4\<rparr>\<rparr>
   \<and> Created \<lparr>Created = 3, Updated = 4\<rparr> \<noteq> Updated \<lparr>Created = 3, Updated = 4\<rparr>"
  using iteration_created [of "\<lparr>received = Inr scenarioA, now1 = 3, now2 = 4, inserted = Inr 8\<rparr>" scenarioA _ 8 "service_start []", OF _ scenarioA_decodes]
  by (simp add: scenarioA_decodes constructWorkOrder_def)

lemma iteration_statusStore_cases:
  "statusStore (consumerIteration e s) = statusStore s
   \<or> (\<exists>msg p oid. received e = Inr msg \<and> json_Unmarshal (Body msg) = Inr p
          \<and> inserted e = Inr oid
          \<and> statusStore (consumerIteration e s)
               = (statusStore s)(payload_RequestID p \<mapsto> constructWorkOrder p (now1 e) (now2 e)))"
  by (auto simp: consumerIteration_def Let_def split: sum.splits)

lemma iteration_dom: "dom (statusStore s) \<subseteq> dom (statusStore (consumerIteration e s))"
  using iteration_statusStore_cases [of e s] by auto

lemma loop_dom: "dom (statusStore s) \<subseteq> dom (statusStore (consumerLoop es s))"
proof (induction es arbitrary: s)
  case Nil
  show ?case by simp
next
  case (Cons e es)
  have "dom (statusStore s) \<subseteq> dom (statusStore (consumerIteration e s))" by (rule iteration_dom)
  also have "\<dots> \<subseteq> dom (statusStore (consumerLoop es (consumerIteration e s)))" by (rule Cons.IH)
  finally show ?case by simp
qed

text \<open>
  Claim C9. An iteration of the loop either leaves the projection as it is, or it has
  received a message whose body decodes and whose insert has succeeded, and then it
  puts the work order made from that envelope under the \<open>requestID\<close> of that
  envelope and leaves every other key as it is. No iteration removes a key, and so no
  run of the loop does. (\<open>handleStatus\<close> only reads the map.)
\<close>

theorem statusStore_write_monotone:
  "(statusStore (consumerIteration e s) = statusStore s
    \<or> (\<exists>msg p oid. received e = Inr msg \<and> json_Unmarshal (Body msg) = Inr p
          \<and> inserted e = Inr oid
          \<and> statusStore (consumerIteration e s) (payload_RequestID p)
               = Some (constructWorkOrder p (now1 e) (now2 e))
          \<and> (\<forall>k. k \<noteq> payload_RequestID p \<longrightarrow>
                 statusStore (consumerIteration e s) k = statusStore s k)))
   \<and> dom (statusStore s) \<subseteq> dom (statusStore (consumerIteration e s))
   \<and> dom (statusStore s) \<subseteq> dom (statusStore (consumerLoop es s))"
proof (intro conjI)
  show "statusStore (consumerIteration e s) = statusStore s
    \<or> (\<exists>msg p oid. received e = Inr msg \<and> json_Unmarshal (Body msg) = Inr p
          \<and> inserted e = Inr oid
          \<and> statusStore (consumerIteration e s) (payload_RequestID p)
               = Some (constructWorkOrder p (now1 e) (now2 e))
          \<and> (\<forall>k. k \<noteq> payload_RequestID p \<longrightarrow>
                 statusStore (consumerIteration e s) k = statusStore s k))"
    using iteration_statusStore_cases [of e s] by fastforce
  show "dom (statusStore s) \<subseteq> dom (statusStore (consumerIteration e s))" by (rule iteration_dom)
  show "dom (statusStore s) \<subseteq> dom (statusStore (consumerLoop es s))" by (rule loop_dom)
qed

text \<open>
  The theorem at a projection that holds an entry for \<open>5-5\<close>, and the envelope of
  scenario A: the projection changes, and the entry for \<open>5-5\<close> stays.
\<close>

theorem statusStore_write_monotone_witness:
  "statusStore (consumerIteration \<lparr>received = Inr scenarioA, now1 = 3, now2 = 4, inserted = Inr 8\<rparr>
       ((service_start [])\<lparr>statusStore := [''5-5'' \<mapsto> oldEntry]\<rparr>))
     \<noteq> [''5-5'' \<mapsto> oldEntry]
   \<and> ''5-5'' \<in> dom (statusStore (consumerIteration
        \<lparr>received = Inr scenarioA, now1 = 3, now2 = 4, inserted = Inr 8\<rparr>
        ((service_start [])\<lparr>statusStore := [''5-5'' \<mapsto> oldEntry]\<rparr>)))
   \<and> statusStore (consumerIteration \<lparr>received = Inr scenarioA, now1 = 3, now2 = 4, inserted = Inr 8\<rparr>
       ((service_start [])\<lparr>statusStore := [''5-5'' \<mapsto> oldEntry]\<rparr>)) ''5-5'' = Some oldEntry"
proof -
  let ?e = "\<lparr>received = Inr scenarioA, now1 = 3, now2 = 4, inserted = Inr (8 :: ObjectID)\<rparr>"
  let ?s = "(service_start [])\<lparr>statusStore := [''5-5'' \<mapsto> oldEntry]\<rparr>"
  note t = statusStore_write_monotone [of ?e ?s "[]"]
  have c: "statusStore (consumerIteration ?e ?s) ''17-42'' \<noteq> statusStore ?s ''17-42''"
    using iteration_created [of ?e scenarioA _ 8 ?s, OF _ scenarioA_decodes] by simp
  then have n: "statusStore (consumerIteration ?e ?s) \<noteq> statusStore ?s" by metis
  with t obtain msg p oid where p: "received ?e = Inr msg" "json_Unmarshal (Body msg) = Inr p"
      "\<forall>k. k \<noteq> payload_RequestID p \<longrightarrow> statusStore (consumerIteration ?e ?s) k = statusStore ?s k"
    by blast
  then have "payload_RequestID p = ''17-42''" using scenarioA_decodes by auto
  then have "statusStore (consumerIteration ?e ?s) ''5-5'' = statusStore ?s ''5-5''"
    using p(3) by simp
  then show ?thesis using n t by auto
qed

lemma iteration_pending:
  assumes "\<forall>k wo. statusStore s k = Some wo \<longrightarrow> wo_Status wo = ''Pending''"
  shows "\<forall>k wo. statusStore (consumerIteration e s) k = Some wo \<longrightarrow> wo_Status wo = ''Pending''"
  using iteration_statusStore_cases [of e s] assms
  by (auto simp: constructWorkOrder_def split: if_splits)

lemma loop_pending:
  assumes "\<forall>k wo. statusStore s k = Some wo \<longrightarrow> wo_Status wo = ''Pending''"
  shows "\<forall>k wo. statusStore (consumerLoop es s) k = Some wo \<longrightarrow> wo_Status wo = ''Pending''"
  using assms
proof (induction es arbitrary: s)
  case Nil
  then show ?case by simp
next
  case (Cons e es)
  show ?case using Cons.IH [OF iteration_pending [OF Cons.prems]] by simp
qed

text \<open>
  Claim C10. From the start of the service, where the projection is empty, every entry
  of the projection after any run of the loop has the status \<open>Pending\<close>, and so has
  every work order that a status query returns.
\<close>

theorem projection_always_pending:
  "(\<forall>k wo. statusStore (consumerLoop es (service_start docs)) k = Some wo
       \<longrightarrow> wo_Status wo = ''Pending'')
   \<and> (\<forall>path wo. handleStatus (consumerLoop es (service_start docs)) path = OK wo
       \<longrightarrow> wo_Status wo = ''Pending'')"
proof -
  have "\<forall>k wo. statusStore (service_start docs) k = Some wo \<longrightarrow> wo_Status wo = ''Pending''"
    by (simp add: service_start_def)
  then have l: "\<forall>k wo. statusStore (consumerLoop es (service_start docs)) k = Some wo
       \<longrightarrow> wo_Status wo = ''Pending''"
    by (rule loop_pending)
  then show ?thesis
    by (auto simp: handleStatus_def Let_def split: option.splits)
qed

text \<open>The theorem at the status query for the request of scenario A.\<close>

theorem projection_always_pending_witness:
  "handleStatus (consumerLoop [\<lparr>received = Inr scenarioA, now1 = 3, now2 = 4, inserted = Inr 8\<rparr>]
       (service_start [])) ''/api/v1/workorder/status/17-42''
     = OK \<lparr>wo_ID = 0, wo_GuestID = ''g1'', wo_Department = ''Housekeeping'',
            wo_Request = ''I need clean towels'', wo_Status = ''Pending'',
            wo_Timestamps = \<lparr>Created = 3, Updated = 4\<rparr>\<rparr>
   \<and> wo_Status \<lparr>wo_ID = 0, wo_GuestID = ''g1'', wo_Department = ''Housekeeping'',
            wo_Request = ''I need clean towels'', wo_Status = ''Pending'',
            wo_Timestamps = \<lparr>Created = 3, Updated = 4\<rparr>\<rparr> = ''Pending''"
proof -
  let ?e = "\<lparr>received = Inr scenarioA, now1 = 3, now2 = 4, inserted = Inr (8 :: ObjectID)\<rparr>"
  let ?wo = "\<lparr>wo_ID = 0, wo_GuestID = ''g1'', wo_Department = ''Housekeeping'',
            wo_Request = ''I need clean towels'', wo_Status = ''Pending'',
            wo_Timestamps = \<lparr>Created = 3, Updated = 4\<rparr>\<rparr>"
  have "handleStatus (consumerLoop [?e] (service_start [])) (''/api/v1/workorder/status/'' @ ''17-42'') = OK ?wo"
    unfolding handleStatus_lookup
    using iteration_created [of ?e scenarioA _ 8 "service_start []", OF _ scenarioA_decodes]
    by (simp add: constructWorkOrder_def)
  then have h: "handleStatus (consumerLoop [?e] (service_start [])) ''/api/v1/workorder/status/17-42'' = OK ?wo"
    by simp
  show ?thesis using projection_always_pending [of "[?e]" "[]"] h by blast
qed

end
